theory Spec2Isabelle
  imports Complex_Main
begin

section \<open>Numbers\<close>

text \<open>
  The program is TypeScript; every quantity is a JavaScript \<open>number\<close>. The model takes
  them as \<^typ>\<open>real\<close>: comparisons, sums, products and quotients are the mathematical ones,
  and the decimal literals of the source (\<open>0.023\<close>, \<open>1.732\<close>, \<open>2.5\<close>) are the exact rationals.
  Rounding errors of binary floating point, \<open>NaN\<close> and the infinities are outside the model.
\<close>

section \<open>Standards table service (\<open>standardsService\<close>)\<close>

text \<open>
  \<open>getMaxInForSectionStandard\<close> and \<open>getMaxInForSectionPessimistic\<close> look the section up in
  an object literal and return \<open>null\<close> for a section that is not a key.
\<close>

definition getMaxInForSectionStandard :: "real \<Rightarrow> real option" where
  "getMaxInForSectionStandard section =
     map_of [(2.5, 25), (6, 40), (10, 50), (16, 63), (25, 80)] section"

definition getMaxInForSectionPessimistic :: "real \<Rightarrow> real option" where
  "getMaxInForSectionPessimistic section =
     map_of [(2.5, 20), (6, 32), (10, 40), (16, 63), (25, 80)] section"

datatype ProtectionStatus = Ok | Info | Danger

definition isProtectionTooHighForSection :: "real \<Rightarrow> real \<Rightarrow> bool" where
  "isProtectionTooHighForSection section inA =
     (case getMaxInForSectionStandard section of
        None \<Rightarrow> False
      | Some maxStd \<Rightarrow> inA > maxStd)"

definition getProtectionStatusForSection :: "real \<Rightarrow> real \<Rightarrow> ProtectionStatus" where
  "getProtectionStatusForSection section inA =
     (let maxPes = getMaxInForSectionPessimistic section;
          maxStd = getMaxInForSectionStandard section
      in case maxStd of
           None \<Rightarrow> Ok
         | Some ms \<Rightarrow>
             if inA > ms then Danger
             else (case maxPes of
                     Some mp \<Rightarrow> if inA > mp then Info else Ok
                   | None \<Rightarrow> Ok))"

section \<open>Electrical sizing helpers (\<open>electricalSizing\<close>)\<close>

definition RHO_CU :: real where
  "RHO_CU = 0.023"

definition DC_SECTIONS_MM2 :: "real list" where
  "DC_SECTIONS_MM2 = [2.5, 6, 10, 16]"

record DcDrop =
  duV :: real
  duPct :: real

definition computeDcDrop :: "real \<Rightarrow> real \<Rightarrow> real \<Rightarrow> real \<Rightarrow> DcDrop" where
  "computeDcDrop lengthM currentA sectionMm2 baseV =
     (if lengthM \<le> 0 \<or> currentA \<le> 0 \<or> sectionMm2 \<le> 0 \<or> baseV \<le> 0
      then \<lparr>duV = 0, duPct = 0\<rparr>
      else (let dV = (2 * lengthM * currentA * RHO_CU) / sectionMm2;
                dPct = (dV / baseV) * 100
            in \<lparr>duV = dV, duPct = dPct\<rparr>))"

text \<open>
  The \<open>for\<close> loop of \<open>pickAutoDcSectionOptionB\<close>: each section is stored in \<open>autoS\<close>
  before the test, and the loop breaks at the first drop of at most 3 percent.
\<close>

fun dcSectionLoop :: "real \<Rightarrow> real \<Rightarrow> real \<Rightarrow> real list \<Rightarrow> real \<Rightarrow> real" where
  "dcSectionLoop lengthM currentA baseV [] autoS = autoS"
| "dcSectionLoop lengthM currentA baseV (S # rest) autoS =
     (if duPct (computeDcDrop lengthM currentA S baseV) \<le> 3 then S
      else dcSectionLoop lengthM currentA baseV rest S)"

definition pickAutoDcSectionOptionB :: "real \<Rightarrow> real \<Rightarrow> real \<Rightarrow> real" where
  "pickAutoDcSectionOptionB lengthM currentA baseV =
     (let autoS = 6
      in if lengthM \<le> 0 \<or> currentA \<le> 0 \<or> baseV \<le> 0 then autoS
         else dcSectionLoop lengthM currentA baseV
                (filter (\<lambda>s. s \<ge> 6) DC_SECTIONS_MM2) autoS)"

definition AC_SECTIONS_MM2 :: "real list" where
  "AC_SECTIONS_MM2 = [2.5, 6, 10, 16, 25]"

text \<open>The local constant \<open>available\<close> of \<open>normalizeBreakerA\<close>.\<close>

definition availableRatings :: "bool \<Rightarrow> real list" where
  "availableRatings tri = (if tri then [16, 20, 25, 32, 40] else [16, 20, 32, 40, 63])"

definition normalizeBreakerA :: "real \<Rightarrow> bool \<Rightarrow> real" where
  "normalizeBreakerA minA tri =
     (let available = availableRatings tri
      in case find (\<lambda>v. v \<ge> max 0 minA) available of
           Some v \<Rightarrow> v
         | None \<Rightarrow> available ! (length available - 1))"

definition computeAcDropPercent :: "real \<Rightarrow> real \<Rightarrow> real \<Rightarrow> bool \<Rightarrow> real" where
  "computeAcDropPercent powerVA distanceMeters sectionMm2 isThreePhase =
     (if powerVA \<le> 0 \<or> distanceMeters \<le> 0 \<or> sectionMm2 \<le> 0 then 0
      else (let voltage = (if isThreePhase then 400 else 230);
                current = (if isThreePhase then powerVA / (voltage * 1.732)
                           else powerVA / voltage);
                dropV = (if isThreePhase
                         then (sqrt 3 * distanceMeters * current * RHO_CU) / sectionMm2
                         else (2 * distanceMeters * current * RHO_CU) / sectionMm2)
            in (dropV / voltage) * 100))"

record AcPickParams =
  powerVA :: real
  lengthM :: real
  isThreePhase :: bool
  breakerA :: real
  minAutoSectionMm2 :: "real option"

text \<open>
  First loop of \<open>pickAutoAcSectionMm2\<close>: the first section, not below the floor, with a drop
  of at most 1 percent and protection status \<open>ok\<close>; \<open>None\<close> when the loop ends without
  returning.
\<close>

fun acConservativeLoop :: "AcPickParams \<Rightarrow> real \<Rightarrow> real list \<Rightarrow> real option" where
  "acConservativeLoop p minAuto [] = None"
| "acConservativeLoop p minAuto (S # rest) =
     (if S < minAuto then acConservativeLoop p minAuto rest
      else (let dup = computeAcDropPercent (powerVA p) (lengthM p) S (isThreePhase p);
                status = getProtectionStatusForSection S (breakerA p)
            in if dup \<le> 1 \<and> status = Ok then Some S
               else acConservativeLoop p minAuto rest))"

text \<open>
  Second loop: \<open>chosen\<close> takes every section not below the floor in turn, and the loop
  breaks at the first one with a drop of at most 1 percent whose status is not \<open>danger\<close>.
\<close>

fun acFallbackLoop :: "AcPickParams \<Rightarrow> real \<Rightarrow> real list \<Rightarrow> real \<Rightarrow> real" where
  "acFallbackLoop p minAuto [] chosen = chosen"
| "acFallbackLoop p minAuto (S # rest) chosen =
     (if S < minAuto then acFallbackLoop p minAuto rest chosen
      else (let dup = computeAcDropPercent (powerVA p) (lengthM p) S (isThreePhase p);
                status = getProtectionStatusForSection S (breakerA p)
            in if dup \<le> 1 \<and> status \<noteq> Danger then S
               else acFallbackLoop p minAuto rest S))"

definition pickAutoAcSectionMm2 :: "AcPickParams \<Rightarrow> real" where
  "pickAutoAcSectionMm2 p =
     (let minAuto = (case minAutoSectionMm2 p of None \<Rightarrow> 2.5 | Some m \<Rightarrow> m)
      in case acConservativeLoop p minAuto AC_SECTIONS_MM2 of
           Some S \<Rightarrow> S
         | None \<Rightarrow> acFallbackLoop p minAuto AC_SECTIONS_MM2 (AC_SECTIONS_MM2 ! 0))"

section \<open>Vocabulary of the specification for the sizing claims\<close>

text \<open>
  The wording of the specification, "the rating exceeds the maximum of the profile for that
  section": a section without an entry has no maximum to exceed.
\<close>

definition exceeds :: "real \<Rightarrow> real option \<Rightarrow> bool" where
  "exceeds inA mx = (case mx of None \<Rightarrow> False | Some m \<Rightarrow> inA > m)"

text \<open>
  "The smallest value of the ladder that is greater than or equal to the input."
\<close>

definition isSmallestRatingAtLeast :: "real \<Rightarrow> real list \<Rightarrow> real \<Rightarrow> bool" where
  "isSmallestRatingAtLeast minA ladder r =
     (r \<in> set ladder \<and> minA \<le> r \<and> list_all (\<lambda>v. minA \<le> v \<longrightarrow> r \<le> v) ladder)"

definition topRating :: "bool \<Rightarrow> real" where
  "topRating tri = (if tri then 40 else 63)"

text \<open>
  The voltage drop in percent as the specification writes it: length factor 2 in single
  phase, \<open>\<surd>3\<close> in three phase, with the current \<open>power / 230\<close> respectively
  \<open>power / (400 \<times> \<surd>3)\<close>, and 0 for a non-positive power, length or section.
\<close>

definition specAcDropPercent :: "real \<Rightarrow> real \<Rightarrow> real \<Rightarrow> bool \<Rightarrow> real" where
  "specAcDropPercent pw len section tri =
     (if pw \<le> 0 \<or> len \<le> 0 \<or> section \<le> 0 then 0
      else if tri
           then ((sqrt 3 * len * (pw / (400 * sqrt 3)) * 0.023) / section / 400) * 100
           else ((2 * len * (pw / 230) * 0.023) / section / 230) * 100)"

text \<open>
  The sections the DC picker iterates over, the drop it computes for one of them, and "the
  first section of that catalog whose computed drop is at most 3 percent".
\<close>

definition dcAutoSections :: "real list" where
  "dcAutoSections = filter (\<lambda>s. s \<ge> 6) DC_SECTIONS_MM2"

definition dcDropPct :: "real \<Rightarrow> real \<Rightarrow> real \<Rightarrow> real \<Rightarrow> real" where
  "dcDropPct len cur baseV S = duPct (computeDcDrop len cur S baseV)"

definition isFirstDcSectionWithinDrop :: "real \<Rightarrow> real \<Rightarrow> real \<Rightarrow> real \<Rightarrow> bool" where
  "isFirstDcSectionWithinDrop len cur baseV r =
     (r \<in> set dcAutoSections
      \<and> dcDropPct len cur baseV r \<le> 3
      \<and> list_all (\<lambda>s. s < r \<longrightarrow> \<not> dcDropPct len cur baseV s \<le> 3) dcAutoSections)"

text \<open>
  The tests of the two loops of \<open>pickAutoAcSectionMm2\<close> on one section, and the constant
  factor of the AC drop for positive arguments.
\<close>

definition acConservativeTest :: "AcPickParams \<Rightarrow> real \<Rightarrow> real \<Rightarrow> bool" where
  "acConservativeTest p minAuto S =
     (\<not> S < minAuto
      \<and> computeAcDropPercent (powerVA p) (lengthM p) S (isThreePhase p) \<le> 1
      \<and> getProtectionStatusForSection S (breakerA p) = Ok)"

definition acFallbackTest :: "AcPickParams \<Rightarrow> real \<Rightarrow> real \<Rightarrow> bool" where
  "acFallbackTest p minAuto S =
     (\<not> S < minAuto
      \<and> computeAcDropPercent (powerVA p) (lengthM p) S (isThreePhase p) \<le> 1
      \<and> getProtectionStatusForSection S (breakerA p) \<noteq> Danger)"

definition acDropFactor :: "bool \<Rightarrow> real" where
  "acDropFactor t =
     (if t then sqrt 3 * RHO_CU / (400 * 1.732) / 400 * 100 else 2 * RHO_CU / 230 / 230 * 100)"

section \<open>JavaScript helpers\<close>

text \<open>
  Strings are byte lists. \<open>startsWith\<close> and \<open>includesStr\<close> are the methods \<open>startsWith\<close> and
  \<open>includes\<close> of JavaScript strings; \<open>orDefault x d\<close> is \<open>x || d\<close> on numbers (0 is the falsy number);
  \<open>toFixedNum f x\<close> is \<open>parseFloat(x.toFixed(f))\<close>, the nearest multiple of \<open>10\<^bsup>-f\<^esup>\<close>
  with ties away from zero; \<open>mathRound\<close> and \<open>mathCeil\<close> are \<open>Math.round\<close> and \<open>Math.ceil\<close>.
\<close>

definition startsWith :: "string \<Rightarrow> string \<Rightarrow> bool" where
  "startsWith s pre = (take (length pre) s = pre)"

fun includesStr :: "string \<Rightarrow> string \<Rightarrow> bool" where
  "includesStr [] sub = (sub = [])"
| "includesStr (c # cs) sub = (startsWith (c # cs) sub \<or> includesStr cs sub)"

definition orDefault :: "real \<Rightarrow> real \<Rightarrow> real" where
  "orDefault x d = (if x = 0 then d else x)"

definition toFixedNum :: "nat \<Rightarrow> real \<Rightarrow> real" where
  "toFixedNum f x = sgn x * real_of_int \<lfloor>\<bar>x\<bar> * 10 ^ f + 1 / 2\<rfloor> / 10 ^ f"

definition mathRound :: "real \<Rightarrow> real" where
  "mathRound x = real_of_int \<lfloor>x + 1 / 2\<rfloor>"

definition mathCeil :: "real \<Rightarrow> real" where
  "mathCeil x = real_of_int \<lceil>x\<rceil>"

fun natToString :: "nat \<Rightarrow> string" where
  "natToString n =
     (if n < 10 then [char_of (48 + n)]
      else natToString (n div 10) @ [char_of (48 + n mod 10)])"

section \<open>Data model (\<open>types\<close>)\<close>

text \<open>
  The records keep the fields that the modelled functions read. A field whose name is a
  constant of HOL or a field of another record carries a suffix: \<open>powerP\<close> and
  \<open>electricalP\<close> are \<open>Panel.power\<close> and \<open>Panel.electrical\<close>, \<open>idC\<close>, \<open>powerC\<close> and
  \<open>electricalC\<close> are the fields of \<open>Component\<close>, \<open>idS\<close> is \<open>ConfiguredString.id\<close>, \<open>idF\<close>
  and \<open>nameF\<close> are the fields of \<open>RoofField\<close>. An optional field is an \<open>option\<close>. MPPT
  indices are natural numbers; the electrical record of an inverter component is an
  \<open>InverterElectricalSpecs\<close>, as the cast in the source assumes.
\<close>

record PanelElectricalSpecs =
  voc :: real
  isc :: real
  vmp :: real
  imp :: real
  tempCoeffVoc :: "real option"
  tempCoeffPmax :: "real option"

record Panel =
  name :: string
  powerP :: real
  electricalP :: "PanelElectricalSpecs option"

record InverterElectricalSpecs =
  maxInputVoltage :: real
  minMpptVoltage :: real
  maxMpptVoltage :: real
  maxInputCurrent :: real
  maxAcPower :: real
  maxAcCurrent :: "real option"
  nominalAcCurrent :: "real option"
  mpptCount :: "real option"

record Component =
  idC :: string
  powerC :: "real option"
  electricalC :: "InverterElectricalSpecs option"

record Climate =
  tempMin :: real
  tempMaxAmb :: real

record ConfiguredString =
  idS :: string
  fieldId :: string
  panelCount :: real
  mpptIndex :: nat

record PanelConfig =
  model :: Panel
  rows :: real
  columns :: real
  rowConfiguration :: "real list option"

record RoofField =
  idF :: string
  nameF :: string
  panels :: PanelConfig

record DcCablingRun =
  mpptIndexR :: nat
  parallelStrings :: "real option"

datatype Phase = Mono | Tri

datatype RcdType = RcdA | RcdF | RcdB

datatype AcCurrentBasis = IAC_MAX | IAC_NOMINAL | FALLBACK_S_OVER_U

text \<open>
  Messages are template literals in the source. The model keeps which template it is and
  the values it interpolates: the MPPT index and the numbers printed, rounded as
  \<open>toFixed\<close> prints them. The last argument of \<open>CourantTropEleve\<close> is the number of parallel
  strings, which the message shows only when it is greater than 1.
\<close>

datatype BasisDetail =
    DetailIacMax real
  | DetailIacNom real
  | DetailFallback real bool

datatype CompatError =
    RepartitionIncorrecte real real
  | TensionPanneauMicro real real
  | Surtension nat real real
  | VmpChaudTropBas nat real real
  | CourantTropEleve nat real real "real option"

datatype CompatWarning =
    VocFroidProcheLimite nat real real real
  | VmpChaudProcheLimite nat real real real

record MpptAnalysis =
  mpptIndexA :: nat
  composition :: "(string \<times> real) list"
  totalPanelCount :: real
  vocColdA :: real
  vmpHotA :: real
  parallelStringsA :: real
  iscMax :: real
  iscCalculationA :: real
  isVoltageWarning :: bool
  isVoltageError :: bool
  isMpptError :: bool
  isMpptWarning :: bool
  isCurrentError :: bool

record Details =
  vocCold :: real
  vmaxInverter :: real
  vmpHot :: real
  vminMppt :: real
  iscPanel :: real
  iscCalculation :: real
  imaxInverter :: real
  dcAcRatio :: real
  maxAcPowerD :: real
  nominalAcCurrentD :: real
  acCurrentBasis :: AcCurrentBasis
  acCurrentBasisDetail :: BasisDetail
  recommendedBreakerTheo :: real
  recommendedBreaker :: real
  rcdType :: RcdType
  tempsUsed :: "real \<times> real"
  stringsAnalysis :: "MpptAnalysis list"
  maxPanelsInAString :: real

record CompatibilityReport =
  isCompatible :: bool
  warnings :: "CompatWarning list"
  errors :: "CompatError list"
  details :: "Details option"

section \<open>Compatibility analyser (\<open>compatibilityService\<close>)\<close>

definition DEFAULT_TEMP_COEFF_VOC :: real where
  "DEFAULT_TEMP_COEFF_VOC = - 0.26"

definition VOC_WARN_RATIO :: real where
  "VOC_WARN_RATIO = 0.95"

definition VMP_WARN_RATIO :: real where
  "VMP_WARN_RATIO = 1.05"

definition neutralReport :: CompatibilityReport where
  "neutralReport = \<lparr>isCompatible = True, warnings = [], errors = [], details = None\<rparr>"

subsection \<open>Grouping the strings by MPPT\<close>

text \<open>
  \<open>mpptGroups\<close> is an object with integer keys, which \<open>Object.entries\<close> enumerates in
  ascending order of the key: the model keeps the groups as a list sorted by key. A string
  joins the group of its key, or opens a new group at the place of the key.
\<close>

fun pushToGroup ::
  "nat \<Rightarrow> ConfiguredString \<Rightarrow> (nat \<times> ConfiguredString list) list
     \<Rightarrow> (nat \<times> ConfiguredString list) list" where
  "pushToGroup idx str [] = [(idx, [str])]"
| "pushToGroup idx str ((k, ss) # rest) =
     (if idx = k then (k, ss @ [str]) # rest
      else if idx < k then (idx, [str]) # (k, ss) # rest
      else (k, ss) # pushToGroup idx str rest)"

definition legacyString :: "real \<Rightarrow> nat \<Rightarrow> nat \<times> ConfiguredString list" where
  "legacyString panelsPerStringLegacy i =
     (i + 1, [\<lparr>idS = ''legacy-'' @ natToString i, fieldId = ''legacy'',
                panelCount = panelsPerStringLegacy, mpptIndex = i + 1\<rparr>])"

definition buildMpptGroups ::
  "ConfiguredString list \<Rightarrow> real \<Rightarrow> real \<Rightarrow> (nat \<times> ConfiguredString list) list" where
  "buildMpptGroups configuredStrings panelsPerStringLegacy stringsCountLegacy =
     (if configuredStrings = []
      then (let stringsCount = orDefault stringsCountLegacy 1
            in map (legacyString panelsPerStringLegacy) [0..<nat \<lceil>stringsCount\<rceil>])
      else foldl (\<lambda>groups str.
                    pushToGroup (if mpptIndex str = 0 then 1 else mpptIndex str) str groups)
             [] configuredStrings)"

subsection \<open>Parallel strings per MPPT\<close>

definition buildParallelByMppt :: "DcCablingRun list \<Rightarrow> (nat \<rightharpoonup> real)" where
  "buildParallelByMppt dcCablingRuns =
     foldl (\<lambda>m r.
              let idx = mpptIndexR r
              in if idx = 0 then m
                 else m(idx \<mapsto>
                        max 1 (mathRound
                          (orDefault (case parallelStrings r of None \<Rightarrow> 1 | Some x \<Rightarrow> x) 1))))
       Map.empty dcCablingRuns"

subsection \<open>One segment of an MPPT\<close>

record SegmentAcc =
  mpptVocCold :: real
  mpptVmpHot :: real
  mpptIscMax :: real
  mpptPanelCount :: real
  compositionNames :: "(string \<times> real) list"
  totalPvPowerS :: real

definition segmentStep ::
  "RoofField list \<Rightarrow> Panel \<Rightarrow> real \<Rightarrow> real \<Rightarrow> SegmentAcc \<Rightarrow> ConfiguredString \<Rightarrow> SegmentAcc" where
  "segmentStep flds mainPanel tMin tCellHot acc seg =
     (let field = find (\<lambda>f. idF f = fieldId seg) flds;
          panel = (case field of Some f \<Rightarrow> model (panels f) | None \<Rightarrow> mainPanel);
          acc1 =
            (case electricalP panel of
               None \<Rightarrow> acc
             | Some pSpecs \<Rightarrow>
                 (let coeffVoc = (case tempCoeffVoc pSpecs of
                                    None \<Rightarrow> DEFAULT_TEMP_COEFF_VOC
                                  | Some c \<Rightarrow> orDefault c DEFAULT_TEMP_COEFF_VOC);
                      deltaTCold = tMin - 25;
                      vocColdPanel = voc pSpecs * (1 + (coeffVoc / 100) * deltaTCold);
                      deltaTHot = tCellHot - 25;
                      vmpHotPanel = vmp pSpecs * (1 + (coeffVoc / 100) * deltaTHot)
                  in acc\<lparr>mpptVocCold := mpptVocCold acc + vocColdPanel * panelCount seg,
                          mpptVmpHot := mpptVmpHot acc + vmpHotPanel * panelCount seg,
                          mpptIscMax := (if isc pSpecs > mpptIscMax acc then isc pSpecs
                                         else mpptIscMax acc),
                          totalPvPowerS := totalPvPowerS acc + powerP panel * panelCount seg\<rparr>));
          fieldName = (case field of
                         Some f \<Rightarrow> if nameF f = [] then ''Toiture'' else nameF f
                       | None \<Rightarrow> ''Toiture'')
      in acc1\<lparr>mpptPanelCount := mpptPanelCount acc1 + panelCount seg,
               compositionNames := compositionNames acc1 @ [(fieldName, panelCount seg)]\<rparr>)"

subsection \<open>One MPPT\<close>

record LoopAcc =
  mpptAnalyses :: "MpptAnalysis list"
  globalMaxVoc :: real
  globalMinVmp :: real
  totalPvPower :: real
  maxPanelsCount :: real
  report :: CompatibilityReport

definition mpptStep ::
  "RoofField list \<Rightarrow> Panel \<Rightarrow> real \<Rightarrow> real \<Rightarrow> InverterElectricalSpecs \<Rightarrow> (nat \<rightharpoonup> real)
     \<Rightarrow> LoopAcc \<Rightarrow> nat \<times> ConfiguredString list \<Rightarrow> LoopAcc" where
  "mpptStep flds mainPanel tMin tCellHot iSpecs parallelByMppt acc entry =
     (let idx = fst entry;
          segments = snd entry;
          parallel = (case parallelByMppt idx of None \<Rightarrow> 1 | Some n \<Rightarrow> orDefault n 1);
          s = foldl (segmentStep flds mainPanel tMin tCellHot)
                \<lparr>mpptVocCold = 0, mpptVmpHot = 0, mpptIscMax = 0, mpptPanelCount = 0,
                 compositionNames = [], totalPvPowerS = totalPvPower acc\<rparr> segments;
          mpptIscTotal = mpptIscMax s * parallel;
          analysis =
            \<lparr>mpptIndexA = idx,
             composition = compositionNames s,
             totalPanelCount = mpptPanelCount s,
             vocColdA = toFixedNum 1 (mpptVocCold s),
             vmpHotA = toFixedNum 1 (mpptVmpHot s),
             parallelStringsA = parallel,
             iscMax = mpptIscTotal,
             iscCalculationA = toFixedNum 2 (mpptIscTotal * 1.25),
             isVoltageWarning = (mpptVocCold s \<ge> maxInputVoltage iSpecs * VOC_WARN_RATIO
                                 \<and> mpptVocCold s \<le> maxInputVoltage iSpecs),
             isVoltageError = (mpptVocCold s > maxInputVoltage iSpecs),
             isMpptError = (mpptVmpHot s < minMpptVoltage iSpecs),
             isMpptWarning = (mpptVmpHot s \<ge> minMpptVoltage iSpecs
                              \<and> mpptVmpHot s \<le> minMpptVoltage iSpecs * VMP_WARN_RATIO),
             isCurrentError = (mpptIscTotal > maxInputCurrent iSpecs)\<rparr>;
          r0 = report acc;
          r1 = (if mpptVocCold s > maxInputVoltage iSpecs
                then r0\<lparr>isCompatible := False,
                        errors := errors r0
                          @ [Surtension idx (toFixedNum 1 (mpptVocCold s))
                               (maxInputVoltage iSpecs)]\<rparr>
                else (let ratio = (if maxInputVoltage iSpecs > 0
                                   then mpptVocCold s / maxInputVoltage iSpecs else 0)
                      in if ratio \<ge> VOC_WARN_RATIO
                         then r0\<lparr>warnings := warnings r0
                                   @ [VocFroidProcheLimite idx (toFixedNum 1 (mpptVocCold s))
                                        (toFixedNum 0 (ratio * 100))
                                        (maxInputVoltage iSpecs)]\<rparr>
                         else r0));
          r2 = (if mpptVmpHot s < minMpptVoltage iSpecs
                then r1\<lparr>isCompatible := False,
                        errors := errors r1
                          @ [VmpChaudTropBas idx (toFixedNum 1 (mpptVmpHot s))
                               (minMpptVoltage iSpecs)]\<rparr>
                else (let ratioLow = (if minMpptVoltage iSpecs > 0
                                      then mpptVmpHot s / minMpptVoltage iSpecs else 0)
                      in if ratioLow \<le> VMP_WARN_RATIO
                         then r1\<lparr>warnings := warnings r1
                                   @ [VmpChaudProcheLimite idx (toFixedNum 1 (mpptVmpHot s))
                                        (toFixedNum 0 (ratioLow * 100))
                                        (minMpptVoltage iSpecs)]\<rparr>
                         else r1));
          r3 = (if mpptIscTotal > maxInputCurrent iSpecs
                then r2\<lparr>isCompatible := False,
                        errors := errors r2
                          @ [CourantTropEleve idx (toFixedNum 2 mpptIscTotal)
                               (maxInputCurrent iSpecs)
                               (if parallel > 1 then Some parallel else None)]\<rparr>
                else r2)
      in \<lparr>mpptAnalyses = mpptAnalyses acc @ [analysis],
          globalMaxVoc = (if mpptVocCold s > globalMaxVoc acc then mpptVocCold s
                          else globalMaxVoc acc),
          globalMinVmp = (if mpptVmpHot s < globalMinVmp acc then mpptVmpHot s
                          else globalMinVmp acc),
          totalPvPower = totalPvPowerS s,
          maxPanelsCount = (if mpptPanelCount s > maxPanelsCount acc then mpptPanelCount s
                            else maxPanelsCount acc),
          report = r3\<rparr>)"

subsection \<open>The analyser\<close>

definition rcdTypeOf :: "bool \<Rightarrow> string \<Rightarrow> RcdType" where
  "rcdTypeOf isMicro inverterId =
     (if isMicro then RcdF
      else if includesStr inverterId ''H1'' \<or> includesStr inverterId ''H3''
              \<or> includesStr inverterId ''KH'' \<or> includesStr inverterId ''P3''
           then RcdB
           else RcdF)"

definition microReport ::
  "Panel \<Rightarrow> InverterElectricalSpecs \<Rightarrow> real \<Rightarrow> real \<Rightarrow> real option \<Rightarrow> Phase option
     \<Rightarrow> RcdType \<Rightarrow> CompatibilityReport" where
  "microReport mainPanel iSpecs tMin tCellHot totalPanelsLegacy phase rcd =
     (case electricalP mainPanel of
        None \<Rightarrow> neutralReport
      | Some pSpecs \<Rightarrow>
          (let coeffVoc = (case tempCoeffVoc pSpecs of
                             None \<Rightarrow> DEFAULT_TEMP_COEFF_VOC
                           | Some c \<Rightarrow> orDefault c DEFAULT_TEMP_COEFF_VOC);
               deltaTCold = tMin - 25;
               vocColdPanel = voc pSpecs * (1 + (coeffVoc / 100) * deltaTCold);
               inputsPerMicro = (case mpptCount iSpecs of None \<Rightarrow> 1 | Some c \<Rightarrow> orDefault c 1);
               legacy = (case totalPanelsLegacy of None \<Rightarrow> False | Some t \<Rightarrow> t \<noteq> 0 \<and> t > 0);
               total = (case totalPanelsLegacy of None \<Rightarrow> 0 | Some t \<Rightarrow> t);
               numMicros = mathCeil (total / inputsPerMicro);
               totalSystemAcPower = (if legacy then numMicros * maxAcPower iSpecs
                                     else maxAcPower iSpecs);
               totalSystemDcPower = (if legacy then powerP mainPanel * total
                                     else powerP mainPanel * inputsPerMicro);
               ratio = (if totalSystemAcPower > 0 then totalSystemDcPower / totalSystemAcPower
                        else 0);
               isTri = (case phase of None \<Rightarrow> False | Some ph \<Rightarrow> ph = Tri);
               nominal = (if isTri then totalSystemAcPower / (400 * 1.732)
                          else totalSystemAcPower / 230);
               breaker = nominal * 1.25;
               r0 = neutralReport;
               r1 = (if vocColdPanel > maxInputVoltage iSpecs
                     then r0\<lparr>isCompatible := False,
                             errors := errors r0
                               @ [TensionPanneauMicro (toFixedNum 1 vocColdPanel)
                                    (maxInputVoltage iSpecs)]\<rparr>
                     else r0)
           in r1\<lparr>details := Some
                 \<lparr>vocCold = toFixedNum 1 vocColdPanel,
                  vmaxInverter = maxInputVoltage iSpecs,
                  vmpHot = 0,
                  vminMppt = minMpptVoltage iSpecs,
                  iscPanel = isc pSpecs,
                  iscCalculation = toFixedNum 2 (isc pSpecs * 1.25),
                  imaxInverter = maxInputCurrent iSpecs,
                  dcAcRatio = ratio,
                  maxAcPowerD = totalSystemAcPower,
                  nominalAcCurrentD = toFixedNum 1 nominal,
                  acCurrentBasis = FALLBACK_S_OVER_U,
                  acCurrentBasisDetail = DetailFallback totalSystemAcPower isTri,
                  recommendedBreakerTheo = toFixedNum 1 breaker,
                  recommendedBreaker = mathCeil breaker,
                  rcdType = rcd,
                  tempsUsed = (tMin, tCellHot),
                  stringsAnalysis = [],
                  maxPanelsInAString = 1\<rparr>\<rparr>))"

definition centralReport ::
  "Panel \<Rightarrow> Component \<Rightarrow> InverterElectricalSpecs \<Rightarrow> real \<Rightarrow> real \<Rightarrow> real \<Rightarrow> real
     \<Rightarrow> ConfiguredString list \<Rightarrow> RoofField list \<Rightarrow> Phase option \<Rightarrow> DcCablingRun list
     \<Rightarrow> RcdType \<Rightarrow> CompatibilityReport" where
  "centralReport mainPanel inverter iSpecs tMin tCellHot panelsPerStringLegacy
       stringsCountLegacy configuredStrings flds phase dcCablingRuns rcd =
     (let mpptGroups = buildMpptGroups configuredStrings panelsPerStringLegacy stringsCountLegacy;
          parallelByMppt = buildParallelByMppt dcCablingRuns;
          final = foldl (mpptStep flds mainPanel tMin tCellHot iSpecs parallelByMppt)
                    \<lparr>mpptAnalyses = [], globalMaxVoc = 0, globalMinVmp = 10000,
                     totalPvPower = 0, maxPanelsCount = 0, report = neutralReport\<rparr>
                    mpptGroups;
          maxAcPw = (if maxAcPower iSpecs \<noteq> 0 then maxAcPower iSpecs
                     else (case powerC inverter of None \<Rightarrow> 0 | Some pw \<Rightarrow> orDefault pw 0));
          ratio = (if maxAcPw > 0 then totalPvPower final / maxAcPw else 0);
          isTri = (case phase of
                     Some ph \<Rightarrow> ph = Tri
                   | None \<Rightarrow> maxAcPower iSpecs > 6000 \<or> includesStr (idC inverter) ''TRI''
                              \<or> includesStr (idC inverter) ''T15'');
          basis =
            (case maxAcCurrent iSpecs of
               Some imax \<Rightarrow>
                 if imax > 0 then (imax, IAC_MAX, DetailIacMax imax)
                 else (case nominalAcCurrent iSpecs of
                         Some inom \<Rightarrow>
                           if inom > 0 then (inom, IAC_NOMINAL, DetailIacNom inom)
                           else ((if isTri then maxAcPw / (400 * 1.732) else maxAcPw / 230),
                                 FALLBACK_S_OVER_U, DetailFallback maxAcPw isTri)
                       | None \<Rightarrow>
                           ((if isTri then maxAcPw / (400 * 1.732) else maxAcPw / 230),
                            FALLBACK_S_OVER_U, DetailFallback maxAcPw isTri))
             | None \<Rightarrow>
                 (case nominalAcCurrent iSpecs of
                    Some inom \<Rightarrow>
                      if inom > 0 then (inom, IAC_NOMINAL, DetailIacNom inom)
                      else ((if isTri then maxAcPw / (400 * 1.732) else maxAcPw / 230),
                            FALLBACK_S_OVER_U, DetailFallback maxAcPw isTri)
                  | None \<Rightarrow>
                      ((if isTri then maxAcPw / (400 * 1.732) else maxAcPw / 230),
                       FALLBACK_S_OVER_U, DetailFallback maxAcPw isTri)));
          nominal = fst basis;
          mainIsc = (case electricalP mainPanel of None \<Rightarrow> 0 | Some e \<Rightarrow> orDefault (isc e) 0)
      in (report final)\<lparr>details := Some
            \<lparr>vocCold = toFixedNum 1 (globalMaxVoc final),
             vmaxInverter = maxInputVoltage iSpecs,
             vmpHot = toFixedNum 1 (globalMinVmp final),
             vminMppt = minMpptVoltage iSpecs,
             iscPanel = mainIsc,
             iscCalculation = toFixedNum 2 (mainIsc * 1.25),
             imaxInverter = maxInputCurrent iSpecs,
             dcAcRatio = ratio,
             maxAcPowerD = maxAcPw,
             nominalAcCurrentD = toFixedNum 1 nominal,
             acCurrentBasis = fst (snd basis),
             acCurrentBasisDetail = snd (snd basis),
             recommendedBreakerTheo = toFixedNum 1 (nominal * 1.25),
             recommendedBreaker = mathCeil (nominal * 1.25),
             rcdType = rcd,
             tempsUsed = (tMin, tCellHot),
             stringsAnalysis = mpptAnalyses final,
             maxPanelsInAString = maxPanelsCount final\<rparr>\<rparr>)"

text \<open>
  \<open>checkElectricalCompatibility\<close>. The parameters with a default value are passed
  explicitly; \<open>maxPanelsInAStringLegacy\<close> is never read. The inverter is \<open>None\<close> for
  \<open>null\<close> or \<open>undefined\<close>.
\<close>

definition checkElectricalCompatibility ::
  "Panel \<Rightarrow> Component option \<Rightarrow> Climate option \<Rightarrow> real \<Rightarrow> real option \<Rightarrow> real \<Rightarrow> real
     \<Rightarrow> ConfiguredString list \<Rightarrow> RoofField list \<Rightarrow> Phase option \<Rightarrow> DcCablingRun list
     \<Rightarrow> CompatibilityReport" where
  "checkElectricalCompatibility mainPanel inverterOpt climate panelsPerStringLegacy
       totalPanelsLegacy stringsCountLegacy maxPanelsInAStringLegacy configuredStrings flds
       phase dcCablingRuns =
     (let tMin = (case climate of Some c \<Rightarrow> tempMin c | None \<Rightarrow> - 10);
          tempAmbHot = (case climate of Some c \<Rightarrow> tempMaxAmb c | None \<Rightarrow> 35);
          tCellHot = tempAmbHot + 35
      in case inverterOpt of
           None \<Rightarrow> neutralReport
         | Some inverter \<Rightarrow>
             (case electricalC inverter of
                None \<Rightarrow> neutralReport
              | Some iSpecs \<Rightarrow>
                  (let isMicro = (maxInputVoltage iSpecs < 100);
                       rcd = rcdTypeOf isMicro (idC inverter)
                   in if isMicro
                      then microReport mainPanel iSpecs tMin tCellHot totalPanelsLegacy phase rcd
                      else centralReport mainPanel inverter iSpecs tMin tCellHot
                             panelsPerStringLegacy stringsCountLegacy configuredStrings flds
                             phase dcCablingRuns rcd)))"

section \<open>Vocabulary of the specification for the compatibility claims\<close>

text \<open>
  The panel of a segment as \<open>segmentStep\<close> resolves it, the short-circuit currents of the
  segments of an MPPT that carry electrical data, their maximum (the running maximum of the
  source starts at 0), the number of parallel strings of an MPPT, and the two candidates for
  the current that is compared with the maximum input current of the inverter: the total
  current of the MPPT, and the same with the factor 1.25 of the specification.
\<close>

definition segmentPanel :: "RoofField list \<Rightarrow> Panel \<Rightarrow> ConfiguredString \<Rightarrow> Panel" where
  "segmentPanel flds mainPanel seg =
     (case find (\<lambda>f. idF f = fieldId seg) flds of
        Some f \<Rightarrow> model (panels f)
      | None \<Rightarrow> mainPanel)"

definition segmentIscs :: "RoofField list \<Rightarrow> Panel \<Rightarrow> ConfiguredString list \<Rightarrow> real list" where
  "segmentIscs flds mainPanel segments =
     concat (map (\<lambda>seg. case electricalP (segmentPanel flds mainPanel seg) of
                           None \<Rightarrow> []
                         | Some e \<Rightarrow> [isc e]) segments)"

definition maxSegmentIsc :: "RoofField list \<Rightarrow> Panel \<Rightarrow> ConfiguredString list \<Rightarrow> real" where
  "maxSegmentIsc flds mainPanel segments = foldl max 0 (segmentIscs flds mainPanel segments)"

definition parallelStringCount :: "DcCablingRun list \<Rightarrow> nat \<Rightarrow> real" where
  "parallelStringCount runs idx =
     (case buildParallelByMppt runs idx of None \<Rightarrow> 1 | Some n \<Rightarrow> orDefault n 1)"

definition mpptTotalIsc ::
  "RoofField list \<Rightarrow> Panel \<Rightarrow> DcCablingRun list \<Rightarrow> nat \<times> ConfiguredString list \<Rightarrow> real" where
  "mpptTotalIsc flds mainPanel runs g =
     maxSegmentIsc flds mainPanel (snd g) * parallelStringCount runs (fst g)"

definition specIscCalc ::
  "RoofField list \<Rightarrow> Panel \<Rightarrow> DcCablingRun list \<Rightarrow> nat \<times> ConfiguredString list \<Rightarrow> real" where
  "specIscCalc flds mainPanel runs g =
     maxSegmentIsc flds mainPanel (snd g) * parallelStringCount runs (fst g) * 1.25"

fun isCurrentErr :: "CompatError \<Rightarrow> bool" where
  "isCurrentErr (CourantTropEleve idx i imax n) = True"
| "isCurrentErr e = False"

definition currentErrorOf ::
  "RoofField list \<Rightarrow> Panel \<Rightarrow> DcCablingRun list \<Rightarrow> real \<Rightarrow> nat \<times> ConfiguredString list
     \<Rightarrow> CompatError" where
  "currentErrorOf flds mainPanel runs imax g =
     CourantTropEleve (fst g) (toFixedNum 2 (mpptTotalIsc flds mainPanel runs g)) imax
       (if parallelStringCount runs (fst g) > 1 then Some (parallelStringCount runs (fst g))
        else None)"

text \<open>The inverter argument is absent or carries no electrical record.\<close>

definition noInverterData :: "Component option \<Rightarrow> bool" where
  "noInverterData inverterOpt =
     (case inverterOpt of None \<Rightarrow> True | Some inverter \<Rightarrow> electricalC inverter = None)"

section \<open>The compatibility report of the application (\<open>compatibilityReport\<close> in \<open>App\<close>)\<close>

datatype InverterBrand = NONE | ENPHASE | APSYSTEMS | FOXESS | CUSTOM

text \<open>
  \<open>modelI\<close> and \<open>phaseI\<close> are the fields \<open>model\<close> and \<open>phase\<close> of \<open>InverterConfig\<close>;
  \<open>stringsCount\<close> is read by the source although the interface does not declare it.
\<close>

record InverterConfig =
  brand :: InverterBrand
  modelI :: "string option"
  configuredStrings :: "ConfiguredString list option"
  stringsCount :: "real option"
  phaseI :: "Phase option"
  dcCablingRuns :: "DcCablingRun list option"

text \<open>
  What the memoised closure reads: the fields and the inverter configuration of the
  project, the component found for the selected model (\<open>activeInverterComp\<close>), the values of
  the inverter catalog, the index of the active field and the climate of the project.
\<close>

record ReportInputs =
  projectFields :: "RoofField list"
  inverterConfig :: InverterConfig
  activeInverterComp :: "Component option"
  inverterDBValues :: "Component list"
  activeFieldIndex :: nat
  projectClimate :: "Climate option"

definition getPanelCount :: "PanelConfig \<Rightarrow> real" where
  "getPanelCount p =
     (case rowConfiguration p of
        Some rc \<Rightarrow> if length rc > 0 then foldl (\<lambda>a b. a + b) 0 rc else rows p * columns p
      | None \<Rightarrow> rows p * columns p)"

definition totalPowerW :: "RoofField list \<Rightarrow> real" where
  "totalPowerW flds =
     foldl (\<lambda>sum f. sum + powerP (model (panels f)) * getPanelCount (panels f)) 0 flds"

definition totalPanelsCount :: "RoofField list \<Rightarrow> real" where
  "totalPanelsCount flds = foldl (\<lambda>a b. a + b) 0 (map (\<lambda>f. getPanelCount (panels f)) flds)"

definition totalAssigned :: "InverterConfig \<Rightarrow> real" where
  "totalAssigned cfg =
     foldl (\<lambda>acc s. acc + panelCount s) 0
       (case configuredStrings cfg of None \<Rightarrow> [] | Some strs \<Rightarrow> strs)"

definition requiresStringConfig :: "InverterConfig \<Rightarrow> bool" where
  "requiresStringConfig cfg =
     ((brand cfg = FOXESS
        \<and> \<not> (case modelI cfg of None \<Rightarrow> False | Some m \<Rightarrow> includesStr m ''MICRO''))
      \<or> brand cfg = CUSTOM)"

text \<open>
  The inverter the report is computed for: the active component, or in \<open>Auto\<close> mode the
  smallest candidate of the brand that reaches 80 percent of the installed power, else the
  largest candidate. \<open>Array.prototype.sort\<close> is stable, as \<open>sort_key\<close> is.
\<close>

definition powerOrZero :: "Component \<Rightarrow> real" where
  "powerOrZero c = (case powerC c of None \<Rightarrow> 0 | Some pw \<Rightarrow> orDefault pw 0)"

definition resolveActiveInverter :: "ReportInputs \<Rightarrow> Component option" where
  "resolveActiveInverter inp =
     (case activeInverterComp inp of
        Some c \<Rightarrow> Some c
      | None \<Rightarrow>
          if modelI (inverterConfig inp) = Some ''Auto''
          then (let brandPrefix = (if brand (inverterConfig inp) = FOXESS then ''FOX''
                                   else if brand (inverterConfig inp) = ENPHASE then ''ENP''
                                   else ''APS'');
                    candidates = filter (\<lambda>c. startsWith (idC c) brandPrefix
                                      \<and> \<not> includesStr (idC c) ''MICRO''
                                      \<and> \<not> includesStr (idC c) ''ECS''
                                      \<and> \<not> includesStr (idC c) ''EP''
                                      \<and> \<not> includesStr (idC c) ''EQ'') (inverterDBValues inp);
                    target = totalPowerW (projectFields inp) * 0.8;
                    sortedC = sort_key powerOrZero candidates
                in case find (\<lambda>c. powerOrZero c \<ge> target) sortedC of
                     Some c \<Rightarrow> Some c
                   | None \<Rightarrow> if sortedC = [] then None else Some (last sortedC))
          else None)"

definition compatibilityReport :: "ReportInputs \<Rightarrow> CompatibilityReport option" where
  "compatibilityReport inp =
     (let flds = projectFields inp;
          cfg = inverterConfig inp;
          total = totalPanelsCount flds
      in if total = 0 then None
         else (case resolveActiveInverter inp of
                 None \<Rightarrow> None
               | Some activeInverter \<Rightarrow>
                   if requiresStringConfig cfg \<and> totalAssigned cfg \<noteq> total
                   then Some \<lparr>isCompatible = False, warnings = [],
                              errors = [RepartitionIncorrecte (totalAssigned cfg) total],
                              details = None\<rparr>
                   else (let stringsLegacy = (case stringsCount cfg of
                                                None \<Rightarrow> 1 | Some c \<Rightarrow> orDefault c 1);
                             activeField = (if activeFieldIndex inp < length flds
                                            then flds ! activeFieldIndex inp else flds ! 0)
                         in Some (checkElectricalCompatibility
                                    (model (panels activeField))
                                    (Some activeInverter)
                                    (projectClimate inp)
                                    (mathCeil (total / stringsLegacy))
                                    (Some total)
                                    stringsLegacy
                                    0
                                    (case configuredStrings cfg of None \<Rightarrow> [] | Some s \<Rightarrow> s)
                                    flds
                                    (phaseI cfg)
                                    (case dcCablingRuns cfg of None \<Rightarrow> [] | Some r \<Rightarrow> r)))))"

text \<open>
  The wording of the specification for the string assignment: the panels assigned to a field
  by the configured strings, and "some field whose assigned total differs from its panel
  count".
\<close>

definition assignedToField :: "ConfiguredString list \<Rightarrow> RoofField \<Rightarrow> real" where
  "assignedToField strs f =
     foldl (\<lambda>acc s. acc + panelCount s) 0 (filter (\<lambda>s. fieldId s = idF f) strs)"

definition someFieldMismatch :: "InverterConfig \<Rightarrow> RoofField list \<Rightarrow> bool" where
  "someFieldMismatch cfg flds =
     list_ex (\<lambda>f. assignedToField (case configuredStrings cfg of None \<Rightarrow> [] | Some s \<Rightarrow> s) f
                    \<noteq> getPanelCount (panels f)) flds"

fun isRepartitionErr :: "CompatError \<Rightarrow> bool" where
  "isRepartitionErr (RepartitionIncorrecte a t) = True"
| "isRepartitionErr e = False"

section \<open>Example configurations\<close>

definition examplePanel :: Panel where
  "examplePanel =
     \<lparr>name = ''DM500'', powerP = 500,
      electricalP = Some \<lparr>voc = 40, isc = 10, vmp = 33, imp = 9.5,
                          tempCoeffVoc = Some (- 0.26), tempCoeffPmax = None\<rparr>\<rparr>"

definition exampleSpecs :: InverterElectricalSpecs where
  "exampleSpecs =
     \<lparr>maxInputVoltage = 1000, minMpptVoltage = 80, maxMpptVoltage = 550,
      maxInputCurrent = 12, maxAcPower = 5000, maxAcCurrent = None,
      nominalAcCurrent = None, mpptCount = Some 2\<rparr>"

definition exampleInverter :: Component where
  "exampleInverter = \<lparr>idC = ''FOX-S5000'', powerC = Some 5000, electricalC = Some exampleSpecs\<rparr>"

definition exampleField :: "string \<Rightarrow> RoofField" where
  "exampleField i =
     \<lparr>idF = i, nameF = ''Toiture'',
      panels = \<lparr>model = examplePanel, rows = 2, columns = 6, rowConfiguration = None\<rparr>\<rparr>"

definition exampleString :: "string \<Rightarrow> real \<Rightarrow> nat \<Rightarrow> ConfiguredString" where
  "exampleString f n m = \<lparr>idS = ''str-'' @ f, fieldId = f, panelCount = n, mpptIndex = m\<rparr>"

definition exampleInputs :: "ConfiguredString list \<Rightarrow> RoofField list \<Rightarrow> ReportInputs" where
  "exampleInputs strs flds =
     \<lparr>projectFields = flds,
      inverterConfig = \<lparr>brand = FOXESS, modelI = Some ''FOX-S5000'',
                         configuredStrings = Some strs, stringsCount = None,
                         phaseI = Some Mono, dcCablingRuns = None\<rparr>,
      activeInverterComp = Some exampleInverter,
      inverterDBValues = [exampleInverter],
      activeFieldIndex = 0,
      projectClimate = None\<rparr>"

section \<open>Merging the cable coils of the bill of materials (\<open>mergeCableCoilsInBOM\<close> in \<open>App\<close>)\<close>

text \<open>
  A line of the bill of materials. \<open>idM\<close> is the field \<open>id\<close>; \<open>reasons\<close> is the property
  \<open>_reasons\<close> that the merge attaches to its map entries at run time, a \<open>Set\<close> of strings kept
  here as the list of its elements in insertion order, and \<open>None\<close> on an object that does
  not have the property.
\<close>

record Material =
  idM :: string
  description :: string
  quantity :: real
  price :: "string option"
  datasheetUrl :: "string option"
  reasons :: "string list option"

text \<open>
  The cable catalog maps a catalog id to the description of its entry, when the entry exists
  and its description is a string. The argument of the merge is \<open>None\<close> for \<open>null\<close>.
\<close>

type_synonym CableDb = "string \<Rightarrow> string option"

text \<open>
  \<open>toUpperCase\<close> on the ASCII letters, which are the only characters that can produce the
  letters of \<open>CABLE\<close>; the regular expression \<open>/^\d{8,}$/\<close> as a test on the characters.
\<close>

definition toUpperChar :: "char \<Rightarrow> char" where
  "toUpperChar c =
     (let n = (of_char c :: nat) in if 97 \<le> n \<and> n \<le> 122 then char_of (n - 32) else c)"

definition isDigit :: "char \<Rightarrow> bool" where
  "isDigit c = (let n = (of_char c :: nat) in 48 \<le> n \<and> n \<le> 57)"

definition isCable :: "CableDb option \<Rightarrow> Material \<Rightarrow> bool" where
  "isCable cableDb it =
     (case (case cableDb of None \<Rightarrow> None | Some db \<Rightarrow> db (idM it)) of
        Some d \<Rightarrow> includesStr (map toUpperChar d) ''CABLE''
      | None \<Rightarrow> (length (idM it) \<ge> 8 \<and> list_all isDigit (idM it))
                 \<or> startsWith (idM it) ''CABLE-'')"

text \<open>
  The \<open>Map\<close> \<open>byId\<close> is an association list in insertion order with distinct keys:
  \<open>mapSet\<close> replaces the value of a key that is present, in place, and appends a new key.
  \<open>setAdd\<close> is \<open>Set.add\<close> and \<open>joinWith\<close> is \<open>Array.join\<close>.
\<close>

fun mapSet :: "string \<Rightarrow> Material \<Rightarrow> (string \<times> Material) list \<Rightarrow> (string \<times> Material) list" where
  "mapSet k v [] = [(k, v)]"
| "mapSet k v ((k', v') # rest) =
     (if k = k' then (k, v) # rest else (k', v') # mapSet k v rest)"

definition setAdd :: "string list \<Rightarrow> string \<Rightarrow> string list" where
  "setAdd xs x = (if x \<in> set xs then xs else xs @ [x])"

fun joinWith :: "string \<Rightarrow> string list \<Rightarrow> string" where
  "joinWith sep [] = []"
| "joinWith sep [x] = x"
| "joinWith sep (x # y # ys) = x @ sep @ joinWith sep (y # ys)"

text \<open>The first entry of a cable, and the update of the existing entry by a later line.\<close>

definition firstEntry :: "Material \<Rightarrow> Material" where
  "firstEntry it = it\<lparr>reasons := Some [description it]\<rparr>"

definition mergeInto :: "Material \<Rightarrow> Material \<Rightarrow> Material" where
  "mergeInto existing it =
     (let q = max (orDefault (quantity existing) 1) (orDefault (quantity it) 1);
          rs = map_option (\<lambda>r. setAdd r (description it)) (reasons existing);
          d = joinWith '' / '' (filter (\<lambda>s. s \<noteq> []) (case rs of None \<Rightarrow> [] | Some r \<Rightarrow> r))
      in existing\<lparr>quantity := q, reasons := rs, description := d\<rparr>)"

text \<open>
  The loop over the items. \<open>Math.random\<close> is the only source of nondeterminism: \<open>rnd k\<close> is
  the text of the value returned by its \<open>k\<close>-th call, and the loop counts the calls.
\<close>

fun mergeLoop ::
  "CableDb option \<Rightarrow> (nat \<Rightarrow> string) \<Rightarrow> Material list \<Rightarrow> nat \<Rightarrow> (string \<times> Material) list
     \<Rightarrow> (string \<times> Material) list" where
  "mergeLoop cableDb rnd [] k byId = byId"
| "mergeLoop cableDb rnd (it # items) k byId =
     (if \<not> isCable cableDb it
      then mergeLoop cableDb rnd items (Suc k) (mapSet (''__'' @ rnd k) it byId)
      else (case map_of byId (idM it) of
              None \<Rightarrow> mergeLoop cableDb rnd items k (mapSet (idM it) (firstEntry it) byId)
            | Some existing \<Rightarrow>
                mergeLoop cableDb rnd items k (mapSet (idM it) (mergeInto existing it) byId)))"

definition mergedOf :: "(string \<times> Material) list \<Rightarrow> Material list" where
  "mergedOf byId =
     map (\<lambda>(k, v). if startsWith k ''__'' then v else v\<lparr>reasons := None\<rparr>) byId"

definition mergeCableCoilsInBOM ::
  "(nat \<Rightarrow> string) \<Rightarrow> Material list \<Rightarrow> CableDb option \<Rightarrow> Material list" where
  "mergeCableCoilsInBOM rnd items cableDb = mergedOf (mergeLoop cableDb rnd items 0 [])"

section \<open>Vocabulary of the specification for the merge claims\<close>

text \<open>
  The merge without keys: the entries in insertion order, a cable line merged into the
  entry of the same catalog id, every other line appended.
\<close>

definition sameCable :: "CableDb option \<Rightarrow> Material \<Rightarrow> Material \<Rightarrow> bool" where
  "sameCable cableDb it v = (isCable cableDb v \<and> idM v = idM it)"

fun replaceFirst :: "(Material \<Rightarrow> bool) \<Rightarrow> Material \<Rightarrow> Material list \<Rightarrow> Material list" where
  "replaceFirst P v' [] = []"
| "replaceFirst P v' (v # vs) = (if P v then v' # vs else v # replaceFirst P v' vs)"

definition entriesStep :: "CableDb option \<Rightarrow> Material list \<Rightarrow> Material \<Rightarrow> Material list" where
  "entriesStep cableDb acc it =
     (if \<not> isCable cableDb it then acc @ [it]
      else (case find (sameCable cableDb it) acc of
              None \<Rightarrow> acc @ [firstEntry it]
            | Some existing \<Rightarrow>
                replaceFirst (sameCable cableDb it) (mergeInto existing it) acc))"

definition stripReasons :: "CableDb option \<Rightarrow> Material \<Rightarrow> Material" where
  "stripReasons cableDb v =
     (if isCable cableDb v \<and> \<not> startsWith (idM v) ''__'' then v\<lparr>reasons := None\<rparr> else v)"

definition mergedEntries :: "CableDb option \<Rightarrow> Material list \<Rightarrow> Material list" where
  "mergedEntries cableDb items =
     map (stripReasons cableDb) (foldl (entriesStep cableDb) [] items)"

text \<open>
  The keys drawn for a list of items, one per line that is not a cable; they are fresh when
  they are pairwise distinct and none of them is the catalog id of a cable of the list.
\<close>

definition drawnKeys :: "CableDb option \<Rightarrow> (nat \<Rightarrow> string) \<Rightarrow> Material list \<Rightarrow> string list" where
  "drawnKeys cableDb rnd items =
     map (\<lambda>j. ''__'' @ rnd j) [0..<length (filter (\<lambda>it. \<not> isCable cableDb it) items)]"

definition cableIds :: "CableDb option \<Rightarrow> Material list \<Rightarrow> string list" where
  "cableIds cableDb items = map idM (filter (isCable cableDb) items)"

definition freshKeys :: "CableDb option \<Rightarrow> (nat \<Rightarrow> string) \<Rightarrow> Material list \<Rightarrow> bool" where
  "freshKeys cableDb rnd items =
     (distinct (drawnKeys cableDb rnd items)
      \<and> list_all (\<lambda>k. k \<notin> set (cableIds cableDb items)) (drawnKeys cableDb rnd items))"

text \<open>
  The quantities of the lines that are merged into one cable entry (the merge candidates),
  their maximum, and the quantity the loop computes for them: the first quantity as it is,
  then the maximum with each later one, where a quantity of 0 counts as 1.
\<close>

definition candidateQuantities :: "CableDb option \<Rightarrow> string \<Rightarrow> Material list \<Rightarrow> real list" where
  "candidateQuantities cableDb i items =
     map quantity (filter (\<lambda>it. isCable cableDb it \<and> idM it = i) items)"

definition maxQuantity :: "real list \<Rightarrow> real" where
  "maxQuantity qs = (case qs of [] \<Rightarrow> 0 | q # rest \<Rightarrow> foldl max q rest)"

definition mergedQuantity :: "real list \<Rightarrow> real" where
  "mergedQuantity qs =
     (case qs of
        [] \<Rightarrow> 0
      | q # rest \<Rightarrow> foldl (\<lambda>a b. max (orDefault a 1) (orDefault b 1)) q rest)"

definition noReservedCableId :: "CableDb option \<Rightarrow> Material list \<Rightarrow> bool" where
  "noReservedCableId cableDb items =
     list_all (\<lambda>it. isCable cableDb it \<longrightarrow> \<not> startsWith (idM it) ''__'') items"

definition distinctDraws :: "CableDb option \<Rightarrow> (nat \<Rightarrow> string) \<Rightarrow> Material list \<Rightarrow> bool" where
  "distinctDraws cableDb rnd items = distinct (drawnKeys cableDb rnd items)"

section \<open>Auxiliary notions for the merge\<close>

text \<open>
  The invariant of the loop on one entry of the map: a cable sits under its catalog id, which
  belongs to the set \<open>C\<close> of the cable ids of the list, and any other line sits under one of
  the keys drawn so far.
\<close>

definition entryOk ::
  "CableDb option \<Rightarrow> (nat \<Rightarrow> string) \<Rightarrow> nat \<Rightarrow> string set \<Rightarrow> string \<times> Material \<Rightarrow> bool" where
  "entryOk cableDb rnd k C e =
     (if isCable cableDb (snd e) then fst e = idM (snd e) \<and> idM (snd e) \<in> C
      else (\<exists>j<k. fst e = ''__'' @ rnd j))"

abbreviation notCable :: "CableDb option \<Rightarrow> Material \<Rightarrow> bool" where
  "notCable cableDb \<equiv> \<lambda>v. \<not> isCable cableDb v"

section \<open>Example bill of materials\<close>

definition exampleLine :: "string \<Rightarrow> string \<Rightarrow> real \<Rightarrow> Material" where
  "exampleLine i d q =
     \<lparr>idM = i, description = d, quantity = q, price = None, datasheetUrl = None,
      reasons = None\<rparr>"

definition exampleBom :: "Material list" where
  "exampleBom =
     [exampleLine ''CABLE-DC-10MM'' ''AC1'' 1, exampleLine ''02018'' ''Disjoncteur'' 2,
      exampleLine ''CABLE-DC-10MM'' ''AC2'' 3, exampleLine ''FOX-S5000'' ''Onduleur'' 1]"

definition drawsA :: "nat \<Rightarrow> string" where
  "drawsA k = (if k = 0 then ''0.25'' else ''0.75'')"

definition drawsB :: "nat \<Rightarrow> string" where
  "drawsB k = (if k = 0 then ''0.1'' else ''0.9'')"

definition drawsSame :: "nat \<Rightarrow> string" where
  "drawsSame k = ''0.5''"

section \<open>Properties of the standards table service\<close>

text \<open>
  Claim C3. For every cable cross-section and every rating of the protective device, the
  protection status is \<open>danger\<close> exactly when \<open>isProtectionTooHighForSection\<close> holds, that is
  exactly when the rating exceeds the standard maximum of the section; it is \<open>info\<close> exactly
  when the rating exceeds the pessimistic maximum without exceeding the standard one; and it
  is \<open>ok\<close> in every other case.
\<close>

theorem protectionStatus_policy:
  "(getProtectionStatusForSection section inA = Danger
      \<longleftrightarrow> isProtectionTooHighForSection section inA)
   \<and> (isProtectionTooHighForSection section inA
      \<longleftrightarrow> exceeds inA (getMaxInForSectionStandard section))
   \<and> (getProtectionStatusForSection section inA = Info
      \<longleftrightarrow> exceeds inA (getMaxInForSectionPessimistic section)
          \<and> \<not> exceeds inA (getMaxInForSectionStandard section))
   \<and> (getProtectionStatusForSection section inA = Ok
      \<longleftrightarrow> \<not> exceeds inA (getMaxInForSectionPessimistic section)
          \<and> \<not> exceeds inA (getMaxInForSectionStandard section))"
  by (simp add: getProtectionStatusForSection_def isProtectionTooHighForSection_def exceeds_def
      getMaxInForSectionStandard_def getMaxInForSectionPessimistic_def)

section \<open>Properties of the sizing helpers\<close>

subsection \<open>Breaker normalisation\<close>

text \<open>
  Claim C5, as stated: for every theoretical minimum and phase mode the result is the
  smallest rating of the ladder that is at least the input. It fails above the top of the
  ladder: for 50 A in three phase the function falls back to the last rating, 40 A.
\<close>

theorem normalizeBreakerA_counterexample:
  "\<not> isSmallestRatingAtLeast 50 (availableRatings True) (normalizeBreakerA 50 True)"
  by (simp add: isSmallestRatingAtLeast_def normalizeBreakerA_def availableRatings_def)

text \<open>
  Claim C5, amended: for every input up to the top of the ladder (40 A in three phase, 63 A
  in single phase) the result is the smallest rating of the ladder that is at least the
  input; above the top the result is the top rating.
\<close>

theorem normalizeBreakerA_rounds_up:
  "(minA \<le> topRating t \<longrightarrow>
      isSmallestRatingAtLeast minA (availableRatings t) (normalizeBreakerA minA t))
   \<and> (topRating t < minA \<longrightarrow> normalizeBreakerA minA t = topRating t)"
  by (cases t)
    (auto simp: isSmallestRatingAtLeast_def normalizeBreakerA_def availableRatings_def
      topRating_def max_def)

theorem normalizeBreakerA_rounds_up_witness:
  "(22::real) \<le> topRating True
   \<and> isSmallestRatingAtLeast 22 (availableRatings True) (normalizeBreakerA 22 True)
   \<and> normalizeBreakerA 22 True = 25
   \<and> topRating False < (70::real) \<and> normalizeBreakerA 70 False = 63"
  using normalizeBreakerA_rounds_up [of 22 True] normalizeBreakerA_rounds_up [of 70 False]
  by (simp add: topRating_def normalizeBreakerA_def availableRatings_def)

subsection \<open>Voltage drop\<close>

lemma sqrt3_neq: "sqrt 3 \<noteq> 1.732"
proof
  assume a: "sqrt 3 = 1.732"
  have "(1.732::real)\<^sup>2 = (sqrt 3)\<^sup>2" by (simp only: a)
  also have "\<dots> = 3" by simp
  finally show False by (simp add: power2_eq_square)
qed

text \<open>
  Claim C6, as stated: the three-phase drop uses the current \<open>power / (400 \<times> \<surd>3)\<close>. The
  source divides by \<open>400 * 1.732\<close>, so the two differ already for 400 VA over 1 m of
  1 mm2.
\<close>

theorem computeAcDropPercent_counterexample:
  "computeAcDropPercent 400 1 1 True \<noteq> specAcDropPercent 400 1 1 True"
  using sqrt3_neq
  by (simp add: computeAcDropPercent_def specAcDropPercent_def RHO_CU_def Let_def)

text \<open>
  Claim C6, amended: in single phase the drop is the formula of the specification; in three
  phase it is \<open>((\<surd>3 \<times> length \<times> current \<times> 0.023) / section / 400) \<times> 100\<close> with the current
  \<open>power / (400 \<times> 1.732)\<close>; the DC drop in percent is
  \<open>((2 \<times> length \<times> current \<times> 0.023) / section / V) \<times> 100\<close>; and each of them is exactly 0
  as soon as one of its arguments is not positive.
\<close>

theorem voltage_drop_formulas:
  "computeAcDropPercent pw len section False = specAcDropPercent pw len section False
   \<and> computeAcDropPercent pw len section True =
       (if pw \<le> 0 \<or> len \<le> 0 \<or> section \<le> 0 then 0
        else ((sqrt 3 * len * (pw / (400 * 1.732)) * 0.023) / section / 400) * 100)
   \<and> duPct (computeDcDrop len cur section baseV) =
       (if len \<le> 0 \<or> cur \<le> 0 \<or> section \<le> 0 \<or> baseV \<le> 0 then 0
        else ((2 * len * cur * 0.023) / section / baseV) * 100)"
  by (simp add: computeAcDropPercent_def specAcDropPercent_def computeDcDrop_def RHO_CU_def
      Let_def)

subsection \<open>Automatic DC section\<close>

text \<open>
  Claim C7, as stated: the picker always returns the first section whose drop is at most
  3 percent. For 12 A over 1000 m at 100 V no section of the catalog reaches 3 percent, and
  the loop ends on the last one.
\<close>

theorem pickAutoDcSectionOptionB_counterexample:
  "\<not> isFirstDcSectionWithinDrop 1000 12 100 (pickAutoDcSectionOptionB 1000 12 100)"
  by (simp add: isFirstDcSectionWithinDrop_def dcDropPct_def dcAutoSections_def
      pickAutoDcSectionOptionB_def DC_SECTIONS_MM2_def computeDcDrop_def RHO_CU_def Let_def)

text \<open>
  Claim C7, amended: for every length, current and base voltage the picker returns 6, 10 or
  16, never less than 6; when some section from 6 mm2 upwards has a drop of at most
  3 percent it returns the first such section, otherwise it returns 16; and when the drop at
  6 mm2 is at most 3 percent it returns exactly 6.
\<close>

theorem pickAutoDcSectionOptionB_policy:
  "pickAutoDcSectionOptionB len currentA baseV \<in> {6, 10, 16}
   \<and> 6 \<le> pickAutoDcSectionOptionB len currentA baseV
   \<and> (list_ex (\<lambda>s. dcDropPct len currentA baseV s \<le> 3) dcAutoSections \<longrightarrow>
        isFirstDcSectionWithinDrop len currentA baseV
          (pickAutoDcSectionOptionB len currentA baseV))
   \<and> (\<not> list_ex (\<lambda>s. dcDropPct len currentA baseV s \<le> 3) dcAutoSections \<longrightarrow>
        pickAutoDcSectionOptionB len currentA baseV = 16)
   \<and> (dcDropPct len currentA baseV 6 \<le> 3 \<longrightarrow>
        pickAutoDcSectionOptionB len currentA baseV = 6)"
proof (cases "len \<le> 0 \<or> currentA \<le> 0 \<or> baseV \<le> 0")
  case True
  then have z: "dcDropPct len currentA baseV s = 0" for s
    by (auto simp: dcDropPct_def computeDcDrop_def)
  have "pickAutoDcSectionOptionB len currentA baseV = 6"
    using True by (simp add: pickAutoDcSectionOptionB_def)
  then show ?thesis
    by (simp add: z isFirstDcSectionWithinDrop_def dcAutoSections_def DC_SECTIONS_MM2_def)
next
  case False
  then have "pickAutoDcSectionOptionB len currentA baseV =
      (if dcDropPct len currentA baseV 6 \<le> 3 then 6
       else if dcDropPct len currentA baseV 10 \<le> 3 then 10 else 16)"
    by (simp add: pickAutoDcSectionOptionB_def DC_SECTIONS_MM2_def dcDropPct_def)
  then show ?thesis
    by (simp add: isFirstDcSectionWithinDrop_def dcAutoSections_def DC_SECTIONS_MM2_def)
qed

theorem pickAutoDcSectionOptionB_policy_witness:
  "list_ex (\<lambda>s. dcDropPct 40 12 600 s \<le> 3) dcAutoSections
   \<and> dcDropPct 40 12 600 6 \<le> 3
   \<and> isFirstDcSectionWithinDrop 40 12 600 (pickAutoDcSectionOptionB 40 12 600)
   \<and> pickAutoDcSectionOptionB 40 12 600 = 6
   \<and> \<not> list_ex (\<lambda>s. dcDropPct 1000 12 100 s \<le> 3) dcAutoSections
   \<and> pickAutoDcSectionOptionB 1000 12 100 = 16"
  using pickAutoDcSectionOptionB_policy [of 40 12 600] pickAutoDcSectionOptionB_policy [of 1000 12 100]
  by (simp add: isFirstDcSectionWithinDrop_def pickAutoDcSectionOptionB_def dcDropPct_def
      dcAutoSections_def DC_SECTIONS_MM2_def computeDcDrop_def RHO_CU_def Let_def)


subsection \<open>Automatic AC section\<close>

lemma acDropFactor_pos: "0 < acDropFactor t"
  by (simp add: acDropFactor_def RHO_CU_def)

lemma computeAcDropPercent_pos:
  "0 < P \<Longrightarrow> 0 < L \<Longrightarrow> 0 < S \<Longrightarrow> computeAcDropPercent P L S t = acDropFactor t * (P * L) / S"
  by (simp add: computeAcDropPercent_def acDropFactor_def Let_def)

lemma computeAcDropPercent_nonneg: "0 \<le> computeAcDropPercent P L S t"
  by (simp add: computeAcDropPercent_def Let_def RHO_CU_def)

lemma computeAcDropPercent_mono:
  assumes "P1 \<le> P2" "L1 \<le> L2"
  shows "computeAcDropPercent P1 L1 S t \<le> computeAcDropPercent P2 L2 S t"
proof (cases "0 < P1 \<and> 0 < L1 \<and> 0 < S")
  case True
  then have pos: "0 < P2" "0 < L2" "0 < P1" "0 < L1" "0 < S" using assms by auto
  have "P1 * L1 \<le> P2 * L2"
    using assms pos by (intro mult_mono) auto
  then have "acDropFactor t * (P1 * L1) / S \<le> acDropFactor t * (P2 * L2) / S"
    using acDropFactor_pos [of t] pos by (simp add: divide_right_mono)
  then show ?thesis
    using pos by (simp add: computeAcDropPercent_pos)
next
  case False
  then have "computeAcDropPercent P1 L1 S t = 0"
    by (auto simp: computeAcDropPercent_def)
  then show ?thesis
    using computeAcDropPercent_nonneg [of P2 L2 S t] by simp
qed

lemma computeAcDropPercent_antimono:
  assumes "0 < S" "S \<le> S'"
  shows "computeAcDropPercent P L S' t \<le> computeAcDropPercent P L S t"
proof (cases "0 < P \<and> 0 < L")
  case True
  then have "0 \<le> acDropFactor t * (P * L)"
    using acDropFactor_pos [of t] by simp
  then have "acDropFactor t * (P * L) / S' \<le> acDropFactor t * (P * L) / S"
    using assms by (intro divide_left_mono) auto
  then show ?thesis
    using True assms by (simp add: computeAcDropPercent_pos)
next
  case False
  then show ?thesis
    by (auto simp: computeAcDropPercent_def)
qed

lemma status_simps:
  "getProtectionStatusForSection (5 / 2) b = (if b > 25 then Danger else if b > 20 then Info else Ok)"
  "getProtectionStatusForSection 6 b = (if b > 40 then Danger else if b > 32 then Info else Ok)"
  "getProtectionStatusForSection 10 b = (if b > 50 then Danger else if b > 40 then Info else Ok)"
  "getProtectionStatusForSection 16 b = (if b > 63 then Danger else Ok)"
  "getProtectionStatusForSection 25 b = (if b > 80 then Danger else Ok)"
  by (simp_all add: getProtectionStatusForSection_def getMaxInForSectionStandard_def getMaxInForSectionPessimistic_def)

lemma acConservativeLoop_find:
  "acConservativeLoop p m xs = find (acConservativeTest p m) xs"
  by (induction xs) (simp_all add: acConservativeTest_def Let_def)

lemma acFallbackLoop_find:
  "acFallbackLoop p m xs c =
     (case find (acFallbackTest p m) xs of
        Some S \<Rightarrow> S
      | None \<Rightarrow> last (c # filter (\<lambda>S. \<not> S < m) xs))"
  by (induction xs arbitrary: c) (auto simp: acFallbackTest_def Let_def split: option.split)

lemma find_None_iff_all: "find P xs = None \<longleftrightarrow> (\<forall>x\<in>set xs. \<not> P x)"
  by (induction xs) auto

lemma find_Some_holds: "find P xs = Some x \<Longrightarrow> P x \<and> x \<in> set xs"
  by (induction xs) (auto split: if_splits)

lemma find_Some_sorted_le:
  "sorted xs \<Longrightarrow> \<forall>x\<in>set xs. Q x \<longrightarrow> P x \<Longrightarrow> find Q xs = Some y
     \<Longrightarrow> \<exists>x. find P xs = Some x \<and> x \<le> y"
  for xs :: "real list"
proof (induction xs)
  case Nil
  then show ?case by simp
next
  case (Cons a xs)
  show ?case
  proof (cases "P a")
    case True
    have "y \<in> set (a # xs)"
      using find_Some_holds [OF Cons.prems(3)] by simp
    then have "a \<le> y" using Cons.prems(1) by auto
    then show ?thesis using True by simp
  next
    case False
    then have "\<not> Q a" using Cons.prems(2) by auto
    then show ?thesis using False Cons by auto
  qed
qed

lemma acFallback_never_breaks:
  assumes "find (acConservativeTest p m) AC_SECTIONS_MM2 = None"
  shows "find (acFallbackTest p m) AC_SECTIONS_MM2 = None"
proof -
  let ?d = "\<lambda>S. computeAcDropPercent (powerVA p) (lengthM p) S (isThreePhase p)"
  let ?b = "breakerA p"
  have none: "\<forall>S\<in>set AC_SECTIONS_MM2. \<not> acConservativeTest p m S"
    using assms by (simp add: find_None_iff_all)
  have "\<not> acFallbackTest p m S" if "S \<in> set AC_SECTIONS_MM2" for S
  proof
    assume f: "acFallbackTest p m S"
    have S: "S = 5 / 2 \<or> S = 6 \<or> S = 10 \<or> S = 16 \<or> S = 25"
      using that by (simp add: AC_SECTIONS_MM2_def)
    have rng: "0 < S" "S \<le> 25"
      using that by (auto simp: AC_SECTIONS_MM2_def)
    have "\<not> 25 < m"
      using f rng by (simp add: acFallbackTest_def)
    moreover have "?d 25 \<le> 1"
      using f computeAcDropPercent_antimono [OF rng, of "powerVA p" "lengthM p" "isThreePhase p"]
      by (simp add: acFallbackTest_def)
    moreover have "\<not> acConservativeTest p m 25"
      using none by (simp add: AC_SECTIONS_MM2_def)
    ultimately have "getProtectionStatusForSection 25 ?b \<noteq> Ok"
      by (simp add: acConservativeTest_def)
    then have "?b > 80"
      by (simp add: status_simps split: if_splits)
    then have dg: "getProtectionStatusForSection (5 / 2) ?b = Danger"
      "getProtectionStatusForSection 6 ?b = Danger"
      "getProtectionStatusForSection 10 ?b = Danger"
      "getProtectionStatusForSection 16 ?b = Danger"
      "getProtectionStatusForSection 25 ?b = Danger"
      by (simp_all add: status_simps)
    have "getProtectionStatusForSection S ?b = Danger"
      using S dg by metis
    then show False using f by (simp add: acFallbackTest_def)
  qed
  then show ?thesis by (simp add: find_None_iff_all)
qed

lemma pickAutoAcSectionMm2_char:
  "pickAutoAcSectionMm2 p =
     (let m = (case minAutoSectionMm2 p of None \<Rightarrow> 2.5 | Some m \<Rightarrow> m)
      in case find (acConservativeTest p m) AC_SECTIONS_MM2 of
           Some S \<Rightarrow> S
         | None \<Rightarrow> if 25 < m then 2.5 else 25)"
proof -
  define m where "m = (case minAutoSectionMm2 p of None \<Rightarrow> 2.5 | Some m \<Rightarrow> m)"
  show ?thesis
  proof (cases "find (acConservativeTest p m) AC_SECTIONS_MM2")
    case None
    then have "find (acFallbackTest p m) AC_SECTIONS_MM2 = None"
      by (rule acFallback_never_breaks)
    moreover have "last ((AC_SECTIONS_MM2 ! 0) # filter (\<lambda>S. \<not> S < m) AC_SECTIONS_MM2)
        = (if 25 < m then 2.5 else 25)"
      by (simp add: AC_SECTIONS_MM2_def)
    ultimately show ?thesis
      using None
      by (simp add: pickAutoAcSectionMm2_def Let_def m_def [symmetric]
          acConservativeLoop_find acFallbackLoop_find)
  next
    case (Some S)
    then show ?thesis
      by (simp add: pickAutoAcSectionMm2_def Let_def m_def [symmetric] acConservativeLoop_find)
  qed
qed

text \<open>
  Claim C4. For a fixed phase mode, breaker rating and section floor, the section picked
  automatically is monotone: a larger power basis and a longer cable never give a smaller
  section.
\<close>

theorem pickAutoAcSectionMm2_mono:
  assumes "P1 \<le> P2" "L1 \<le> L2"
  shows "pickAutoAcSectionMm2 \<lparr>powerVA = P1, lengthM = L1, isThreePhase = t, breakerA = b, minAutoSectionMm2 = fl\<rparr>
       \<le> pickAutoAcSectionMm2 \<lparr>powerVA = P2, lengthM = L2, isThreePhase = t, breakerA = b, minAutoSectionMm2 = fl\<rparr>"
proof -
  define p1 where "p1 = \<lparr>powerVA = P1, lengthM = L1, isThreePhase = t, breakerA = b, minAutoSectionMm2 = fl\<rparr>"
  define p2 where "p2 = \<lparr>powerVA = P2, lengthM = L2, isThreePhase = t, breakerA = b, minAutoSectionMm2 = fl\<rparr>"
  define m where "m = (case fl of None \<Rightarrow> 2.5 | Some m \<Rightarrow> (m::real))"
  have imp: "\<forall>S\<in>set AC_SECTIONS_MM2. acConservativeTest p2 m S \<longrightarrow> acConservativeTest p1 m S"
    using computeAcDropPercent_mono [OF assms, of _ t]
    by (auto simp: acConservativeTest_def p1_def p2_def intro: order_trans)
  have srt: "sorted AC_SECTIONS_MM2"
    by (simp add: AC_SECTIONS_MM2_def)
  have bound: "S \<le> (if 25 < m then 2.5 else 25)"
    if "find (acConservativeTest p1 m) AC_SECTIONS_MM2 = Some S" for S
  proof -
    have "acConservativeTest p1 m S \<and> S \<in> set AC_SECTIONS_MM2"
      using that by (rule find_Some_holds)
    then show ?thesis
      by (auto simp: acConservativeTest_def AC_SECTIONS_MM2_def)
  qed
  have "pickAutoAcSectionMm2 p1 \<le> pickAutoAcSectionMm2 p2"
  proof (cases "find (acConservativeTest p2 m) AC_SECTIONS_MM2")
    case None
    then show ?thesis
      using bound
      by (auto simp: pickAutoAcSectionMm2_char p1_def p2_def m_def [symmetric] split: option.split)
  next
    case (Some S2)
    then obtain S1 where "find (acConservativeTest p1 m) AC_SECTIONS_MM2 = Some S1" "S1 \<le> S2"
      using find_Some_sorted_le [OF srt imp] by blast
    then show ?thesis
      using Some by (simp add: pickAutoAcSectionMm2_char p1_def p2_def m_def [symmetric])
  qed
  then show ?thesis by (simp add: p1_def p2_def)
qed

theorem pickAutoAcSectionMm2_mono_witness:
  "(3000::real) \<le> 6000 \<and> (10::real) \<le> 30
   \<and> pickAutoAcSectionMm2 \<lparr>powerVA = 3000, lengthM = 10, isThreePhase = False,
         breakerA = 32, minAutoSectionMm2 = None\<rparr>
     \<le> pickAutoAcSectionMm2 \<lparr>powerVA = 6000, lengthM = 30, isThreePhase = False,
         breakerA = 32, minAutoSectionMm2 = None\<rparr>"
  using pickAutoAcSectionMm2_mono [of 3000 6000 10 30 False 32 None]
  by simp

section \<open>Properties of the compatibility analyser\<close>

lemmas example_defs =
  checkElectricalCompatibility_def centralReport_def microReport_def Let_def
  exampleInverter_def exampleSpecs_def examplePanel_def exampleString_def exampleField_def
  exampleInputs_def buildMpptGroups_def rcdTypeOf_def neutralReport_def mpptStep_def
  segmentStep_def buildParallelByMppt_def startsWith_def DEFAULT_TEMP_COEFF_VOC_def
  VOC_WARN_RATIO_def VMP_WARN_RATIO_def orDefault_def toFixedNum_def mathCeil_def
  mathRound_def specIscCalc_def mpptTotalIsc_def maxSegmentIsc_def segmentIscs_def
  segmentPanel_def parallelStringCount_def currentErrorOf_def requiresStringConfig_def
  someFieldMismatch_def assignedToField_def getPanelCount_def compatibilityReport_def
  totalPanelsCount_def resolveActiveInverter_def totalAssigned_def noInverterData_def

subsection \<open>Missing inverter data\<close>

text \<open>
  Claim C10. When the inverter argument is \<open>null\<close> or \<open>undefined\<close>, or carries no electrical
  record, the analyser returns the neutral report: compatible, no warning, no error, and no
  details.
\<close>

theorem checkElectricalCompatibility_no_inverter:
  "noInverterData inverterOpt \<Longrightarrow>
     checkElectricalCompatibility mainPanel inverterOpt climate pps tpl scl mpl strs flds ph runs
       = \<lparr>isCompatible = True, warnings = [], errors = [], details = None\<rparr>"
  by (auto simp: noInverterData_def checkElectricalCompatibility_def neutralReport_def Let_def
      split: option.splits)

theorem checkElectricalCompatibility_no_inverter_witness:
  "noInverterData None
   \<and> noInverterData (Some \<lparr>idC = ''FOX-H1'', powerC = Some 5000, electricalC = None\<rparr>)
   \<and> checkElectricalCompatibility examplePanel None None 1 None 1 0 [] [] None []
       = \<lparr>isCompatible = True, warnings = [], errors = [], details = None\<rparr>
   \<and> checkElectricalCompatibility examplePanel
        (Some \<lparr>idC = ''FOX-H1'', powerC = Some 5000, electricalC = None\<rparr>) None
        1 None 1 0 [] [] None []
       = \<lparr>isCompatible = True, warnings = [], errors = [], details = None\<rparr>"
  using checkElectricalCompatibility_no_inverter [of None examplePanel None 1 None 1 0 "[]" "[]" None "[]"]
    checkElectricalCompatibility_no_inverter
      [of "Some \<lparr>idC = ''FOX-H1'', powerC = Some 5000, electricalC = None\<rparr>"
          examplePanel None 1 None 1 0 "[]" "[]" None "[]"]
  by (simp add: noInverterData_def)

subsection \<open>Current check of an MPPT\<close>

lemma segment_fold_isc:
  "mpptIscMax (foldl (segmentStep flds mainPanel tMin tHot) acc segs)
     = foldl max (mpptIscMax acc) (segmentIscs flds mainPanel segs)"
proof (induction segs arbitrary: acc)
  case Nil
  then show ?case by (simp add: segmentIscs_def)
next
  case (Cons seg segs)
  have "mpptIscMax (segmentStep flds mainPanel tMin tHot acc seg)
      = foldl max (mpptIscMax acc) (segmentIscs flds mainPanel [seg])"
    by (simp add: segmentStep_def segmentIscs_def segmentPanel_def Let_def max_def
        split: option.splits)
  then show ?case
    using Cons.IH [of "segmentStep flds mainPanel tMin tHot acc seg"]
    by (simp add: segmentIscs_def)
qed

lemma mpptStep_current_errors:
  "filter isCurrentErr (errors (report (mpptStep flds mainPanel tMin tHot iSpecs
       (buildParallelByMppt runs) acc g)))
     = filter isCurrentErr (errors (report acc))
       @ (if mpptTotalIsc flds mainPanel runs g > maxInputCurrent iSpecs
          then [currentErrorOf flds mainPanel runs (maxInputCurrent iSpecs) g] else [])"
  by (simp add: mpptStep_def Let_def segment_fold_isc mpptTotalIsc_def maxSegmentIsc_def
      parallelStringCount_def currentErrorOf_def)

lemma mpptStep_analysis:
  "map (\<lambda>a. (mpptIndexA a, isCurrentError a)) (mpptAnalyses (mpptStep flds mainPanel tMin tHot
       iSpecs (buildParallelByMppt runs) acc g))
     = map (\<lambda>a. (mpptIndexA a, isCurrentError a)) (mpptAnalyses acc)
       @ [(fst g, mpptTotalIsc flds mainPanel runs g > maxInputCurrent iSpecs)]"
  by (simp add: mpptStep_def Let_def segment_fold_isc mpptTotalIsc_def maxSegmentIsc_def
      parallelStringCount_def)

lemma mpptStep_compatible:
  "isCompatible (report (mpptStep flds mainPanel tMin tHot iSpecs
       (buildParallelByMppt runs) acc g))
     \<Longrightarrow> isCompatible (report acc)
         \<and> \<not> mpptTotalIsc flds mainPanel runs g > maxInputCurrent iSpecs"
  by (simp add: mpptStep_def Let_def segment_fold_isc mpptTotalIsc_def maxSegmentIsc_def
      parallelStringCount_def split: if_splits)

lemma mpptLoop_current_errors:
  "filter isCurrentErr (errors (report (foldl (mpptStep flds mainPanel tMin tHot iSpecs
       (buildParallelByMppt runs)) acc groups)))
     = filter isCurrentErr (errors (report acc))
       @ map (currentErrorOf flds mainPanel runs (maxInputCurrent iSpecs))
           (filter (\<lambda>g. mpptTotalIsc flds mainPanel runs g > maxInputCurrent iSpecs) groups)"
  by (induction groups arbitrary: acc) (simp_all add: mpptStep_current_errors)

lemma mpptLoop_analysis:
  "map (\<lambda>a. (mpptIndexA a, isCurrentError a)) (mpptAnalyses (foldl (mpptStep flds mainPanel tMin
       tHot iSpecs (buildParallelByMppt runs)) acc groups))
     = map (\<lambda>a. (mpptIndexA a, isCurrentError a)) (mpptAnalyses acc)
       @ map (\<lambda>g. (fst g, mpptTotalIsc flds mainPanel runs g > maxInputCurrent iSpecs)) groups"
  by (induction groups arbitrary: acc) (simp_all add: mpptStep_analysis)

lemma mpptLoop_compatible_start:
  "isCompatible (report (foldl (mpptStep flds mainPanel tMin tHot iSpecs
       (buildParallelByMppt runs)) acc groups))
     \<Longrightarrow> isCompatible (report acc)"
  by (induction groups arbitrary: acc) (auto dest: mpptStep_compatible)

lemma mpptLoop_compatible:
  "isCompatible (report (foldl (mpptStep flds mainPanel tMin tHot iSpecs
       (buildParallelByMppt runs)) acc groups))
     \<Longrightarrow> \<not> list_ex (\<lambda>g. mpptTotalIsc flds mainPanel runs g > maxInputCurrent iSpecs) groups"
proof (induction groups arbitrary: acc)
  case Nil
  then show ?case by simp
next
  case (Cons g groups)
  let ?acc' = "mpptStep flds mainPanel tMin tHot iSpecs (buildParallelByMppt runs) acc g"
  have fin: "isCompatible (report (foldl (mpptStep flds mainPanel tMin tHot iSpecs
       (buildParallelByMppt runs)) ?acc' groups))"
    using Cons.prems by simp
  then have "isCompatible (report ?acc')"
    by (rule mpptLoop_compatible_start)
  then have "\<not> mpptTotalIsc flds mainPanel runs g > maxInputCurrent iSpecs"
    by (auto dest: mpptStep_compatible)
  then show ?case
    using Cons.IH [OF fin] by simp
qed

text \<open>
  Claim C1, as stated: the current error is raised exactly when the calculation current
  \<open>max Isc \<times> parallel strings \<times> 1.25\<close> exceeds the maximum input current. One string of
  panels with \<open>Isc = 10 A\<close> on an input limited to 12 A has a calculation current of
  12.5 A, and the report is compatible without any error.
\<close>

theorem central_current_error_counterexample:
  "specIscCalc [exampleField ''f1''] examplePanel [] (1, [exampleString ''f1'' 12 1])
     > maxInputCurrent exampleSpecs
   \<and> isCompatible (checkElectricalCompatibility examplePanel (Some exampleInverter) None 12
        (Some 12) 1 0 [exampleString ''f1'' 12 1] [exampleField ''f1''] (Some Mono) [])
   \<and> errors (checkElectricalCompatibility examplePanel (Some exampleInverter) None 12
        (Some 12) 1 0 [exampleString ''f1'' 12 1] [exampleField ''f1''] (Some Mono) []) = []"
  by (simp add: example_defs cong: let_weak_cong option.case_cong_weak)

text \<open>
  Claim C1, amended: for a central inverter (electrical record present, maximum input
  voltage of at least 100 V) the current errors of the report are, in the order of the MPPT
  indices, exactly those of the MPPTs whose total current
  \<open>max Isc \<times> parallel strings\<close>, without the factor 1.25, exceeds the maximum input current
  of the inverter; the flag \<open>isCurrentError\<close> of the analysis of each MPPT says the same; and
  the report is not compatible as soon as one MPPT is in that case.
\<close>

theorem central_current_error:
  assumes "inverterOpt = Some inverter" and "electricalC inverter = Some iSpecs"
    and "\<not> maxInputVoltage iSpecs < 100"
  shows
    "(let rep = checkElectricalCompatibility mainPanel inverterOpt climate pps tpl scl mpl
                  strs flds ph runs;
          groups = buildMpptGroups strs pps scl;
          imax = maxInputCurrent iSpecs
      in filter isCurrentErr (errors rep)
           = map (currentErrorOf flds mainPanel runs imax)
               (filter (\<lambda>g. mpptTotalIsc flds mainPanel runs g > imax) groups)
         \<and> map_option (\<lambda>d. map (\<lambda>a. (mpptIndexA a, isCurrentError a)) (stringsAnalysis d))
               (details rep)
           = Some (map (\<lambda>g. (fst g, mpptTotalIsc flds mainPanel runs g > imax)) groups)
         \<and> (list_ex (\<lambda>g. mpptTotalIsc flds mainPanel runs g > imax) groups
              \<longrightarrow> \<not> isCompatible rep))"
proof -
  define tMin where "tMin = (case climate of Some c \<Rightarrow> tempMin c | None \<Rightarrow> - 10)"
  define tHot where "tHot = (case climate of Some c \<Rightarrow> tempMaxAmb c | None \<Rightarrow> 35) + 35"
  define final where "final = foldl (mpptStep flds mainPanel tMin tHot iSpecs
      (buildParallelByMppt runs))
      \<lparr>mpptAnalyses = [], globalMaxVoc = 0, globalMinVmp = 10000, totalPvPower = 0,
       maxPanelsCount = 0, report = neutralReport\<rparr> (buildMpptGroups strs pps scl)"
  define rep where "rep = checkElectricalCompatibility mainPanel inverterOpt climate pps tpl scl
      mpl strs flds ph runs"
  have e: "errors rep = errors (report final)"
    and c: "isCompatible rep = isCompatible (report final)"
    and d: "map_option stringsAnalysis (details rep) = Some (mpptAnalyses final)"
    using assms
    by (simp_all add: rep_def checkElectricalCompatibility_def centralReport_def Let_def
        final_def tMin_def tHot_def)
  have 1: "filter isCurrentErr (errors rep)
      = map (currentErrorOf flds mainPanel runs (maxInputCurrent iSpecs))
          (filter (\<lambda>g. mpptTotalIsc flds mainPanel runs g > maxInputCurrent iSpecs)
             (buildMpptGroups strs pps scl))"
    unfolding e final_def by (simp add: mpptLoop_current_errors neutralReport_def)
  have "map_option (\<lambda>d. map (\<lambda>a. (mpptIndexA a, isCurrentError a)) (stringsAnalysis d))
          (details rep)
      = Some (map (\<lambda>a. (mpptIndexA a, isCurrentError a)) (mpptAnalyses final))"
    using d by (cases "details rep") auto
  then have 2: "map_option (\<lambda>d. map (\<lambda>a. (mpptIndexA a, isCurrentError a)) (stringsAnalysis d))
          (details rep)
      = Some (map (\<lambda>g. (fst g, mpptTotalIsc flds mainPanel runs g > maxInputCurrent iSpecs))
          (buildMpptGroups strs pps scl))"
    unfolding final_def by (simp add: mpptLoop_analysis)
  have 3: "list_ex (\<lambda>g. mpptTotalIsc flds mainPanel runs g > maxInputCurrent iSpecs)
        (buildMpptGroups strs pps scl) \<longrightarrow> \<not> isCompatible rep"
    unfolding c final_def using mpptLoop_compatible by blast
  show ?thesis
    using 1 2 3 by (simp add: Let_def rep_def)
qed

theorem central_current_error_witness:
  "Some exampleInverter = Some exampleInverter
   \<and> electricalC exampleInverter = Some exampleSpecs
   \<and> \<not> maxInputVoltage exampleSpecs < 100
   \<and> filter isCurrentErr (errors (checkElectricalCompatibility examplePanel
        (Some exampleInverter) None 12 (Some 12) 1 0 [exampleString ''f1'' 12 1]
        [exampleField ''f1''] (Some Mono) [\<lparr>mpptIndexR = 1, parallelStrings = Some 2\<rparr>]))
       = [CourantTropEleve 1 20 12 (Some 2)]
   \<and> \<not> isCompatible (checkElectricalCompatibility examplePanel
        (Some exampleInverter) None 12 (Some 12) 1 0 [exampleString ''f1'' 12 1]
        [exampleField ''f1''] (Some Mono) [\<lparr>mpptIndexR = 1, parallelStrings = Some 2\<rparr>])"
  using central_current_error [of "Some exampleInverter" exampleInverter exampleSpecs
      examplePanel None 12 "Some 12" 1 0 "[exampleString ''f1'' 12 1]" "[exampleField ''f1'']"
      "Some Mono" "[\<lparr>mpptIndexR = 1, parallelStrings = Some 2\<rparr>]"]
  by (simp add: example_defs cong: let_weak_cong option.case_cong_weak)

subsection \<open>String assignment\<close>

text \<open>
  Claim C2, as stated: a field whose configured strings do not sum to its panel count makes
  the report incompatible with a "Repartition Incorrecte" error. Two fields of 12 panels
  with 14 panels assigned to the first and 10 to the second pass the check, which compares
  the totals only: the report is compatible and has no error.
\<close>

theorem compatibilityReport_counterexample:
  "requiresStringConfig (inverterConfig (exampleInputs
       [exampleString ''f1'' 14 1, exampleString ''f2'' 10 2]
       [exampleField ''f1'', exampleField ''f2'']))
   \<and> someFieldMismatch (inverterConfig (exampleInputs
       [exampleString ''f1'' 14 1, exampleString ''f2'' 10 2]
       [exampleField ''f1'', exampleField ''f2'']))
       [exampleField ''f1'', exampleField ''f2'']
   \<and> map_option isCompatible (compatibilityReport (exampleInputs
       [exampleString ''f1'' 14 1, exampleString ''f2'' 10 2]
       [exampleField ''f1'', exampleField ''f2''])) = Some True
   \<and> map_option errors (compatibilityReport (exampleInputs
       [exampleString ''f1'' 14 1, exampleString ''f2'' 10 2]
       [exampleField ''f1'', exampleField ''f2''])) = Some []"
  by (simp add: example_defs cong: let_weak_cong option.case_cong_weak)

text \<open>
  Claim C2, amended: for a configuration that requires a string assignment, with a total
  panel count different from zero and an inverter to analyse, if the panels assigned over
  all configured strings do not sum to the panel count of all fields together, the report is
  exactly: not compatible, no warning, the single error "Repartition Incorrecte" with the
  two totals, and no details.
\<close>

theorem compatibilityReport_repartition:
  assumes "requiresStringConfig (inverterConfig inp)"
    and "totalPanelsCount (projectFields inp) \<noteq> 0"
    and "resolveActiveInverter inp = Some activeInverter"
    and "totalAssigned (inverterConfig inp) \<noteq> totalPanelsCount (projectFields inp)"
  shows "compatibilityReport inp =
     Some \<lparr>isCompatible = False, warnings = [],
           errors = [RepartitionIncorrecte (totalAssigned (inverterConfig inp))
                       (totalPanelsCount (projectFields inp))],
           details = None\<rparr>"
  using assms by (simp add: compatibilityReport_def Let_def)

theorem compatibilityReport_repartition_witness:
  "requiresStringConfig (inverterConfig (exampleInputs [exampleString ''f1'' 14 1]
       [exampleField ''f1'']))
   \<and> totalPanelsCount [exampleField ''f1''] = 12
   \<and> resolveActiveInverter (exampleInputs [exampleString ''f1'' 14 1] [exampleField ''f1''])
       = Some exampleInverter
   \<and> totalAssigned (inverterConfig (exampleInputs [exampleString ''f1'' 14 1]
       [exampleField ''f1''])) = 14
   \<and> compatibilityReport (exampleInputs [exampleString ''f1'' 14 1] [exampleField ''f1''])
       = Some \<lparr>isCompatible = False, warnings = [],
               errors = [RepartitionIncorrecte 14 12], details = None\<rparr>"
  using compatibilityReport_repartition
    [of "exampleInputs [exampleString ''f1'' 14 1] [exampleField ''f1'']" exampleInverter]
  by (simp add: example_defs cong: let_weak_cong option.case_cong_weak)

section \<open>Properties of the cable coil merge\<close>

lemmas merge_example_defs =
  mergeCableCoilsInBOM_def mergedOf_def isCable_def isDigit_def startsWith_def
  exampleLine_def exampleBom_def drawsA_def drawsB_def drawsSame_def firstEntry_def
  mergeInto_def setAdd_def orDefault_def Let_def freshKeys_def drawnKeys_def cableIds_def
  candidateQuantities_def maxQuantity_def mergedQuantity_def noReservedCableId_def
  distinctDraws_def

subsection \<open>The map with random keys computes the entries in insertion order\<close>

lemma mapSet_absent: "k \<notin> fst ` set byId \<Longrightarrow> mapSet k v byId = byId @ [(k, v)]"
  by (induction byId) auto

lemma mapSet_snd:
  "\<forall>e\<in>set byId. (fst e = k) = P (snd e) \<Longrightarrow>
     map snd (mapSet k v' byId) =
       (case find P (map snd byId) of
          None \<Rightarrow> map snd byId @ [v']
        | Some x \<Rightarrow> replaceFirst P v' (map snd byId))"
  by (induction byId) (auto split: option.splits)

lemma map_of_find:
  "\<forall>e\<in>set byId. (fst e = k) = P (snd e) \<Longrightarrow> map_of byId k = find P (map snd byId)"
  by (induction byId) auto

lemma mapSet_set: "set (mapSet k v byId) \<subseteq> insert (k, v) (set byId)"
  by (induction byId) (auto split: if_splits)

lemma entryOk_mono: "entryOk cableDb rnd k C e \<Longrightarrow> k \<le> n \<Longrightarrow> entryOk cableDb rnd n C e"
  unfolding entryOk_def
  by (cases "isCable cableDb (snd e)") (auto intro: less_le_trans)

lemma isCable_cong_id: "idM a = idM b \<Longrightarrow> isCable cableDb a = isCable cableDb b"
  by (simp add: isCable_def cong: option.case_cong)

lemma idM_mergeInto [simp]: "idM (mergeInto existing it) = idM existing"
  by (simp add: mergeInto_def Let_def)

lemma idM_firstEntry [simp]: "idM (firstEntry it) = idM it"
  by (simp add: firstEntry_def)

lemma isCable_mergeInto [simp]: "isCable cableDb (mergeInto existing it) = isCable cableDb existing"
  by (rule isCable_cong_id) simp

lemma isCable_firstEntry [simp]: "isCable cableDb (firstEntry it) = isCable cableDb it"
  by (rule isCable_cong_id) simp

lemma key_matches_cable:
  assumes "entryOk cableDb rnd k C e" and "k \<le> n" and "\<forall>j<n. ''__'' @ rnd j \<notin> C"
    and "idM it \<in> C"
  shows "(fst e = idM it) = sameCable cableDb it (snd e)"
  using assms by (auto simp: entryOk_def sameCable_def split: if_splits)

lemma key_is_new:
  assumes "\<forall>e\<in>set byId. entryOk cableDb rnd k C e" and "k < n"
    and "inj_on rnd {..<n}" and "\<forall>j<n. ''__'' @ rnd j \<notin> C"
  shows "''__'' @ rnd k \<notin> fst ` set byId"
proof
  assume "''__'' @ rnd k \<in> fst ` set byId"
  then obtain e where e: "e \<in> set byId" "fst e = ''__'' @ rnd k" by auto
  have ok: "entryOk cableDb rnd k C e" using assms(1) e(1) by simp
  show False
  proof (cases "isCable cableDb (snd e)")
    case True
    then have "''__'' @ rnd k \<in> C" using ok e(2) by (simp add: entryOk_def)
    then show False using assms(2,4) by simp
  next
    case False
    then obtain j where "j < k" "rnd j = rnd k" using ok e(2) by (auto simp: entryOk_def)
    then show False using assms(2,3) by (auto simp: inj_on_def)
  qed
qed

lemma mergeLoop_entries:
  assumes "inj_on rnd {..<n}" and "\<forall>j<n. ''__'' @ rnd j \<notin> C"
    and "\<forall>it\<in>set items. isCable cableDb it \<longrightarrow> idM it \<in> C"
    and "k + length (filter (\<lambda>it. \<not> isCable cableDb it) items) \<le> n"
    and "\<forall>e\<in>set byId. entryOk cableDb rnd k C e"
  shows "map snd (mergeLoop cableDb rnd items k byId)
           = foldl (entriesStep cableDb) (map snd byId) items
         \<and> (\<forall>e\<in>set (mergeLoop cableDb rnd items k byId). entryOk cableDb rnd n C e)"
  using assms(3-)
proof (induction items arbitrary: k byId)
  case Nil
  then show ?case by (auto intro: entryOk_mono)
next
  case (Cons it items)
  show ?case
  proof (cases "isCable cableDb it")
    case False
    have k: "k < n" using Cons.prems(2) False by simp
    have new: "''__'' @ rnd k \<notin> fst ` set byId"
      using key_is_new [OF Cons.prems(3) k assms(1,2)] .
    let ?byId' = "byId @ [(''__'' @ rnd k, it)]"
    have "entryOk cableDb rnd (Suc k) C (''__'' @ rnd k, it)"
      using False by (auto simp: entryOk_def)
    moreover have "\<forall>e\<in>set byId. entryOk cableDb rnd (Suc k) C e"
      using Cons.prems(3) by (auto intro: entryOk_mono [where k = k])
    ultimately have ok': "\<forall>e\<in>set ?byId'. entryOk cableDb rnd (Suc k) C e"
      by auto
    have "map snd (mergeLoop cableDb rnd items (Suc k) ?byId')
           = foldl (entriesStep cableDb) (map snd ?byId') items
         \<and> (\<forall>e\<in>set (mergeLoop cableDb rnd items (Suc k) ?byId'). entryOk cableDb rnd n C e)"
      using Cons.prems(1,2) False by (intro Cons.IH ok') auto
    moreover have "map snd ?byId' = entriesStep cableDb (map snd byId) it"
      using False by (simp add: entriesStep_def)
    moreover have "mergeLoop cableDb rnd (it # items) k byId
        = mergeLoop cableDb rnd items (Suc k) ?byId'"
      using False new by (simp add: mapSet_absent)
    ultimately show ?thesis by simp
  next
    case True
    then have inC: "idM it \<in> C" using Cons.prems(1) by simp
    have match: "\<forall>e\<in>set byId. (fst e = idM it) = sameCable cableDb it (snd e)"
      using Cons.prems(2,3) key_matches_cable [OF _ _ assms(2) inC, of cableDb k _ ]
      by (meson add_leD1)
    define v' where "v' = (case map_of byId (idM it) of
        None \<Rightarrow> firstEntry it | Some existing \<Rightarrow> mergeInto existing it)"
    have v'ok: "entryOk cableDb rnd k C (idM it, v')"
    proof (cases "map_of byId (idM it)")
      case None
      then show ?thesis using True inC by (simp add: v'_def entryOk_def)
    next
      case (Some existing)
      then have "(idM it, existing) \<in> set byId" by (rule map_of_SomeD)
      then have "sameCable cableDb it existing" using match by fastforce
      then show ?thesis using Some inC by (simp add: v'_def entryOk_def sameCable_def)
    qed
    let ?byId' = "mapSet (idM it) v' byId"
    have ok': "\<forall>e\<in>set ?byId'. entryOk cableDb rnd k C e"
      using mapSet_set [of "idM it" v' byId] v'ok Cons.prems(3) by auto
    have IH: "map snd (mergeLoop cableDb rnd items k ?byId')
           = foldl (entriesStep cableDb) (map snd ?byId') items
         \<and> (\<forall>e\<in>set (mergeLoop cableDb rnd items k ?byId'). entryOk cableDb rnd n C e)"
      using Cons.prems(1,2) True by (intro Cons.IH ok') auto
    have step: "map snd ?byId' = entriesStep cableDb (map snd byId) it"
      using True
      by (simp add: mapSet_snd [OF match] map_of_find [OF match] entriesStep_def v'_def
          split: option.splits)
    have loop: "mergeLoop cableDb rnd (it # items) k byId = mergeLoop cableDb rnd items k ?byId'"
      using True by (simp add: v'_def split: option.splits)
    show ?thesis
      unfolding loop using IH step by simp
  qed
qed

lemma mergedOf_entry:
  assumes "entryOk cableDb rnd n C e"
  shows "(case e of (k, v) \<Rightarrow> if startsWith k ''__'' then v else v\<lparr>reasons := None\<rparr>)
           = stripReasons cableDb (snd e)"
proof (cases "isCable cableDb (snd e)")
  case True
  then have "fst e = idM (snd e)" using assms by (simp add: entryOk_def)
  then show ?thesis using True by (cases e) (simp add: stripReasons_def)
next
  case False
  then obtain j where "fst e = ''__'' @ rnd j" using assms by (auto simp: entryOk_def)
  then show ?thesis using False by (cases e) (simp add: stripReasons_def startsWith_def)
qed

lemma mergedOf_entries:
  assumes "\<forall>e\<in>set byId. entryOk cableDb rnd n C e"
  shows "mergedOf byId = map (stripReasons cableDb) (map snd byId)"
proof -
  have "(case e of (k, v) \<Rightarrow> if startsWith k ''__'' then v else v\<lparr>reasons := None\<rparr>)
           = stripReasons cableDb (snd e)" if "e \<in> set byId" for e
    using assms that by (intro mergedOf_entry [where rnd = rnd and n = n and C = C]) auto
  then show ?thesis by (simp add: mergedOf_def)
qed

lemma merge_refines:
  assumes "freshKeys cableDb rnd items"
  shows "mergeCableCoilsInBOM rnd items cableDb = mergedEntries cableDb items"
proof -
  define n where "n = length (filter (\<lambda>it. \<not> isCable cableDb it) items)"
  define C where "C = set (cableIds cableDb items)"
  have d: "distinct (map (\<lambda>j. ''__'' @ rnd j) [0..<n])"
    using assms by (simp add: freshKeys_def drawnKeys_def n_def)
  have inj: "inj_on rnd {..<n}"
  proof (rule inj_onI)
    fix x y assume "x \<in> {..<n}" "y \<in> {..<n}" "rnd x = rnd y"
    then show "x = y"
      using d by (auto simp: distinct_map inj_on_def)
  qed
  have f2: "\<forall>j<n. ''__'' @ rnd j \<notin> C"
    using assms by (auto simp: freshKeys_def drawnKeys_def n_def C_def list_all_iff)
  have c: "\<forall>it\<in>set items. isCable cableDb it \<longrightarrow> idM it \<in> C"
    by (auto simp: C_def cableIds_def)
  have "map snd (mergeLoop cableDb rnd items 0 [])
           = foldl (entriesStep cableDb) [] items
         \<and> (\<forall>e\<in>set (mergeLoop cableDb rnd items 0 []). entryOk cableDb rnd n C e)"
    using mergeLoop_entries [OF inj f2 c, of 0 "[]"] by (simp add: n_def)
  then have "mergedOf (mergeLoop cableDb rnd items 0 [])
      = map (stripReasons cableDb) (foldl (entriesStep cableDb) [] items)"
    using mergedOf_entries [of "mergeLoop cableDb rnd items 0 []" cableDb rnd n C] by simp
  then show ?thesis
    by (simp add: mergeCableCoilsInBOM_def mergedEntries_def)
qed

subsection \<open>Cable ids and lines that are not cables\<close>

lemma idM_stripReasons [simp]: "idM (stripReasons cableDb v) = idM v"
  by (simp add: stripReasons_def)

lemma quantity_stripReasons [simp]: "quantity (stripReasons cableDb v) = quantity v"
  by (simp add: stripReasons_def)

lemma isCable_stripReasons [simp]: "isCable cableDb (stripReasons cableDb v) = isCable cableDb v"
  by (rule isCable_cong_id) simp

lemma stripReasons_notCable: "\<not> isCable cableDb v \<Longrightarrow> stripReasons cableDb v = v"
  by (simp add: stripReasons_def)

lemma replaceFirst_as_map:
  assumes "distinct (map idM (filter (isCable cableDb) acc))"
  shows "replaceFirst (sameCable cableDb it) v' acc
           = map (\<lambda>u. if sameCable cableDb it u then v' else u) acc"
  using assms
proof (induction acc)
  case Nil
  then show ?case by simp
next
  case (Cons a acc)
  show ?case
  proof (cases "sameCable cableDb it a")
    case True
    have "\<not> sameCable cableDb it u" if "u \<in> set acc" for u
    proof
      assume "sameCable cableDb it u"
      then have u: "isCable cableDb u" "idM u = idM a"
        using True by (simp_all add: sameCable_def)
      have "u \<in> set (filter (isCable cableDb) acc)"
        using that u(1) by simp
      then have "idM u \<in> idM ` set (filter (isCable cableDb) acc)"
        by (rule imageI)
      then have "idM a \<in> idM ` set (filter (isCable cableDb) acc)"
        using u(2) by simp
      then show False
        using Cons.prems True by (simp add: sameCable_def)
    qed
    then have "map (\<lambda>u. if sameCable cableDb it u then v' else u) acc = acc"
      by (simp add: map_idI)
    then show ?thesis using True by simp
  next
    case False
    then show ?thesis using Cons by (auto split: if_splits)
  qed
qed

lemma find_sameCable_None:
  "find (sameCable cableDb it) acc = None
     \<longleftrightarrow> idM it \<notin> set (map idM (filter (isCable cableDb) acc))"
  by (induction acc) (auto simp: sameCable_def)

lemma find_sameCable_Some:
  "find (sameCable cableDb it) acc = Some existing
     \<Longrightarrow> existing \<in> set acc \<and> isCable cableDb existing \<and> idM existing = idM it"
  by (induction acc) (auto simp: sameCable_def split: if_splits)

text \<open>One step, with distinct cable ids in the accumulator.\<close>

lemma entriesStep_char:
  assumes "distinct (map idM (filter (isCable cableDb) acc))"
  shows "entriesStep cableDb acc it =
     (if \<not> isCable cableDb it then acc @ [it]
      else case find (sameCable cableDb it) acc of
             None \<Rightarrow> acc @ [firstEntry it]
           | Some existing \<Rightarrow>
               map (\<lambda>u. if sameCable cableDb it u then mergeInto existing it else u) acc)"
  by (simp add: entriesStep_def replaceFirst_as_map [OF assms] split: option.splits)

lemma map_merge_ids:
  assumes "isCable cableDb existing" "idM existing = idM it"
  shows "map idM (filter (isCable cableDb)
            (map (\<lambda>u. if sameCable cableDb it u then mergeInto existing it else u) acc))
         = map idM (filter (isCable cableDb) acc)"
  using assms by (induction acc) (auto simp: sameCable_def)

lemma map_merge_notCable:
  assumes "isCable cableDb existing"
  shows "filter (notCable cableDb)
            (map (\<lambda>u. if sameCable cableDb it u then mergeInto existing it else u) acc)
         = filter (notCable cableDb) acc"
  using assms by (induction acc) (auto simp: sameCable_def)

lemma entriesStep_ids:
  assumes "distinct (map idM (filter (isCable cableDb) acc))"
  shows "map idM (filter (isCable cableDb) (entriesStep cableDb acc it))
     = (if isCable cableDb it \<and> idM it \<notin> set (map idM (filter (isCable cableDb) acc))
        then map idM (filter (isCable cableDb) acc) @ [idM it]
        else map idM (filter (isCable cableDb) acc))"
proof (cases "find (sameCable cableDb it) acc")
  case None
  then show ?thesis
    using find_sameCable_None [of cableDb it acc]
    by (simp add: entriesStep_char [OF assms])
next
  case (Some existing)
  then have e: "isCable cableDb existing" "idM existing = idM it"
    using find_sameCable_Some by blast+
  have "idM it \<in> set (map idM (filter (isCable cableDb) acc))"
    using Some find_sameCable_None [of cableDb it acc] by simp
  then show ?thesis
    using Some by (simp add: entriesStep_char [OF assms] map_merge_ids [OF e])
qed

lemma entriesStep_notCable:
  assumes "distinct (map idM (filter (isCable cableDb) acc))"
  shows "filter (notCable cableDb) (entriesStep cableDb acc it)
     = filter (notCable cableDb) acc @ (if isCable cableDb it then [] else [it])"
proof (cases "find (sameCable cableDb it) acc")
  case None
  then show ?thesis by (simp add: entriesStep_char [OF assms])
next
  case (Some existing)
  then have e: "isCable cableDb existing"
    using find_sameCable_Some by blast
  show ?thesis
    using Some by (simp add: entriesStep_char [OF assms] map_merge_notCable [OF e])
qed

lemma entries_ids:
  "distinct (map idM (filter (isCable cableDb) (foldl (entriesStep cableDb) [] items)))
   \<and> set (map idM (filter (isCable cableDb) (foldl (entriesStep cableDb) [] items)))
       = set (cableIds cableDb items)"
proof (induction items rule: rev_induct)
  case Nil
  then show ?case by (simp add: cableIds_def)
next
  case (snoc it items)
  then show ?case
    by (auto simp: entriesStep_ids cableIds_def)
qed

lemma entries_notCable:
  "filter (notCable cableDb) (foldl (entriesStep cableDb) [] items)
     = filter (notCable cableDb) items"
proof (induction items rule: rev_induct)
  case Nil
  then show ?case by simp
next
  case (snoc it items)
  then show ?case
    using entries_ids [of cableDb items] by (simp add: entriesStep_notCable)
qed

subsection \<open>Quantities and a second merge\<close>

lemma candidateQuantities_snoc:
  "candidateQuantities cableDb i (items @ [it])
     = candidateQuantities cableDb i items
       @ (if isCable cableDb it \<and> idM it = i then [quantity it] else [])"
  by (simp add: candidateQuantities_def)

lemma candidateQuantities_empty:
  "candidateQuantities cableDb i items = [] \<longleftrightarrow> i \<notin> set (cableIds cableDb items)"
  by (auto simp: candidateQuantities_def cableIds_def filter_empty_conv)

lemma mergedQuantity_single [simp]: "mergedQuantity [q] = q"
  by (simp add: mergedQuantity_def)

lemma mergedQuantity_snoc:
  "qs \<noteq> [] \<Longrightarrow>
     mergedQuantity (qs @ [q]) = max (orDefault (mergedQuantity qs) 1) (orDefault q 1)"
  by (cases qs) (simp_all add: mergedQuantity_def)

lemma quantity_mergeInto [simp]:
  "quantity (mergeInto existing it)
     = max (orDefault (quantity existing) 1) (orDefault (quantity it) 1)"
  by (simp add: mergeInto_def Let_def)

lemma quantity_firstEntry [simp]: "quantity (firstEntry it) = quantity it"
  by (simp add: firstEntry_def)

lemma entries_quantities:
  "\<forall>v\<in>set (foldl (entriesStep cableDb) [] items).
      isCable cableDb v \<longrightarrow>
        quantity v = mergedQuantity (candidateQuantities cableDb (idM v) items)"
proof (induction items rule: rev_induct)
  case Nil
  then show ?case by simp
next
  case (snoc it items)
  let ?acc = "foldl (entriesStep cableDb) [] items"
  have ids: "distinct (map idM (filter (isCable cableDb) ?acc))"
    "set (map idM (filter (isCable cableDb) ?acc)) = set (cableIds cableDb items)"
    using entries_ids [of cableDb items] by simp_all
  have old: "quantity v = mergedQuantity (candidateQuantities cableDb (idM v) (items @ [it]))"
    if "v \<in> set ?acc" "isCable cableDb v" "\<not> (isCable cableDb it \<and> idM it = idM v)" for v
    using that snoc.IH by (auto simp: candidateQuantities_snoc)
  show ?case
  proof (cases "isCable cableDb it")
    case False
    then show ?thesis
      using old by (auto simp: entriesStep_char [OF ids(1)])
  next
    case True
    show ?thesis
    proof (cases "find (sameCable cableDb it) ?acc")
      case None
      then have new: "idM it \<notin> set (cableIds cableDb items)"
        using find_sameCable_None [of cableDb it ?acc] ids(2) by simp
      then have "candidateQuantities cableDb (idM it) items = []"
        by (simp add: candidateQuantities_empty)
      then have "quantity (firstEntry it)
          = mergedQuantity (candidateQuantities cableDb (idM (firstEntry it)) (items @ [it]))"
        using True by (simp add: candidateQuantities_snoc)
      moreover have "idM it \<noteq> idM v" if "v \<in> set ?acc" "isCable cableDb v" for v
      proof -
        have "v \<in> set (filter (isCable cableDb) ?acc)" using that by simp
        then have "idM v \<in> set (map idM (filter (isCable cableDb) ?acc))"
          by (simp only: set_map) (rule imageI)
        then show ?thesis using new ids(2) by auto
      qed
      ultimately show ?thesis
        using True None old by (auto simp: entriesStep_char [OF ids(1)])
    next
      case (Some existing)
      then have e: "existing \<in> set ?acc" "isCable cableDb existing" "idM existing = idM it"
        using find_sameCable_Some by blast+
      have qe: "quantity existing = mergedQuantity (candidateQuantities cableDb (idM it) items)"
        using snoc.IH e by auto
      have "idM it \<in> set (cableIds cableDb items)"
        using Some find_sameCable_None [of cableDb it ?acc] ids(2) by simp
      then have ne: "candidateQuantities cableDb (idM it) items \<noteq> []"
        by (simp add: candidateQuantities_empty)
      have merged: "quantity (mergeInto existing it)
          = mergedQuantity (candidateQuantities cableDb (idM it) (items @ [it]))"
        using True qe by (simp add: candidateQuantities_snoc mergedQuantity_snoc [OF ne])
      have acc': "foldl (entriesStep cableDb) [] (items @ [it])
          = map (\<lambda>u. if sameCable cableDb it u then mergeInto existing it else u) ?acc"
        using True Some by (simp add: entriesStep_char [OF ids(1)])
      show ?thesis
        unfolding acc'
      proof (intro ballI impI)
        fix v
        assume v: "v \<in> set (map (\<lambda>u. if sameCable cableDb it u then mergeInto existing it
            else u) ?acc)" and c: "isCable cableDb v"
        then obtain u where u: "u \<in> set ?acc"
          "v = (if sameCable cableDb it u then mergeInto existing it else u)" by auto
        show "quantity v = mergedQuantity (candidateQuantities cableDb (idM v) (items @ [it]))"
        proof (cases "sameCable cableDb it u")
          case True
          then show ?thesis using u(2) merged e(3) by simp
        next
          case False
          then have "v = u" using u(2) by simp
          moreover have "\<not> (isCable cableDb it \<and> idM it = idM u)"
            using False c \<open>v = u\<close> by (auto simp: sameCable_def)
          ultimately show ?thesis using old u(1) c by simp
        qed
      qed
    qed
  qed
qed

lemma mergedQuantity_is_max:
  assumes "0 \<notin> set qs"
  shows "mergedQuantity qs = maxQuantity qs"
proof (cases qs)
  case Nil
  then show ?thesis by (simp add: mergedQuantity_def maxQuantity_def)
next
  case (Cons q rest)
  have "q \<noteq> 0 \<Longrightarrow> 0 \<notin> set rest \<Longrightarrow>
      foldl (\<lambda>a b. max (orDefault a 1) (orDefault b 1)) q rest = foldl max q rest" for q
  proof (induction rest arbitrary: q)
    case Nil
    then show ?case by simp
  next
    case (Cons b rest)
    have "max q b \<noteq> 0" using Cons.prems by (auto simp: max_def)
    then show ?case using Cons by (simp add: orDefault_def)
  qed
  then show ?thesis
    using assms Cons by (simp add: mergedQuantity_def maxQuantity_def)
qed

lemma entries_of_distinct:
  assumes "distinct (map idM (filter (isCable cableDb) xs))"
    and "set (map idM (filter (isCable cableDb) acc))
           \<inter> set (map idM (filter (isCable cableDb) xs)) = {}"
  shows "foldl (entriesStep cableDb) acc xs
           = acc @ map (\<lambda>v. if isCable cableDb v then firstEntry v else v) xs"
  using assms
proof (induction xs arbitrary: acc)
  case Nil
  then show ?case by simp
next
  case (Cons it xs)
  have step: "entriesStep cableDb acc it = acc @ [if isCable cableDb it then firstEntry it else it]"
  proof (cases "isCable cableDb it")
    case True
    then have "idM it \<notin> set (map idM (filter (isCable cableDb) acc))"
      using Cons.prems(2) by auto
    then have "find (sameCable cableDb it) acc = None"
      by (simp add: find_sameCable_None)
    then show ?thesis using True by (simp add: entriesStep_def)
  next
    case False
    then show ?thesis by (simp add: entriesStep_def)
  qed
  have "foldl (entriesStep cableDb) (acc @ [if isCable cableDb it then firstEntry it else it]) xs
      = (acc @ [if isCable cableDb it then firstEntry it else it])
        @ map (\<lambda>v. if isCable cableDb v then firstEntry v else v) xs"
    using Cons.prems by (intro Cons.IH) (auto split: if_splits)
  then show ?case by (simp add: step)
qed

lemma mergedEntries_fixpoint:
  assumes "distinct (map idM (filter (isCable cableDb) xs))"
    and "\<forall>v\<in>set xs. isCable cableDb v \<longrightarrow> reasons v = None \<and> \<not> startsWith (idM v) ''__''"
  shows "mergedEntries cableDb xs = xs"
proof -
  have "foldl (entriesStep cableDb) [] xs
      = map (\<lambda>v. if isCable cableDb v then firstEntry v else v) xs"
    using entries_of_distinct [OF assms(1), of "[]"] by simp
  moreover have "stripReasons cableDb (if isCable cableDb v then firstEntry v else v) = v"
    if "v \<in> set xs" for v
  proof (cases "isCable cableDb v")
    case True
    then have r: "reasons v = None" and ns: "\<not> startsWith (idM v) ''__''"
      using assms(2) that by auto
    have "stripReasons cableDb (firstEntry v) = (firstEntry v)\<lparr>reasons := None\<rparr>"
      using True ns by (simp add: stripReasons_def)
    also have "\<dots> = v"
      using r by (cases v) (auto simp: firstEntry_def)
    finally show ?thesis using True by simp
  next
    case False
    then show ?thesis by (simp add: stripReasons_def)
  qed
  ultimately show ?thesis
    by (simp add: mergedEntries_def map_idI)
qed

lemma mergedEntries_idempotent:
  assumes "noReservedCableId cableDb items"
  shows "mergedEntries cableDb (mergedEntries cableDb items) = mergedEntries cableDb items"
proof (rule mergedEntries_fixpoint)
  let ?acc = "foldl (entriesStep cableDb) [] items"
  have f: "filter (isCable cableDb) (map (stripReasons cableDb) ?acc)
      = map (stripReasons cableDb) (filter (isCable cableDb) ?acc)"
    by (simp add: filter_map comp_def)
  have ids: "map idM (filter (isCable cableDb) (mergedEntries cableDb items))
      = map idM (filter (isCable cableDb) ?acc)"
    by (simp add: mergedEntries_def f)
  show "distinct (map idM (filter (isCable cableDb) (mergedEntries cableDb items)))"
    using entries_ids [of cableDb items] by (simp add: ids)
  show "\<forall>v\<in>set (mergedEntries cableDb items).
      isCable cableDb v \<longrightarrow> reasons v = None \<and> \<not> startsWith (idM v) ''__''"
  proof (intro ballI impI)
    fix v assume v: "v \<in> set (mergedEntries cableDb items)" and c: "isCable cableDb v"
    then have "v \<in> set (filter (isCable cableDb) (mergedEntries cableDb items))" by simp
    then have "idM v \<in> set (map idM (filter (isCable cableDb) (mergedEntries cableDb items)))"
      by (simp only: set_map) (rule imageI)
    then have "idM v \<in> set (cableIds cableDb items)"
      using entries_ids [of cableDb items] by (simp add: ids)
    then have ns: "\<not> startsWith (idM v) ''__''"
      using assms by (auto simp: noReservedCableId_def cableIds_def list_all_iff)
    obtain u where "u \<in> set ?acc" "v = stripReasons cableDb u"
      using v by (auto simp: mergedEntries_def)
    then have "reasons v = None"
      using c ns by (simp add: stripReasons_def split: if_splits)
    then show "reasons v = None \<and> \<not> startsWith (idM v) ''__''"
      using ns by simp
  qed
qed

lemma drawn_keys_reserved: "k \<in> set (drawnKeys cableDb rnd items) \<Longrightarrow> startsWith k ''__''"
  by (auto simp: drawnKeys_def startsWith_def)

lemma fresh_from_distinct:
  assumes "distinctDraws cableDb rnd items" and "noReservedCableId cableDb items"
  shows "freshKeys cableDb rnd items"
proof -
  have "k \<notin> set (cableIds cableDb items)" if "k \<in> set (drawnKeys cableDb rnd items)" for k
    using drawn_keys_reserved [OF that] assms(2)
    by (auto simp: noReservedCableId_def cableIds_def list_all_iff)
  then show ?thesis
    using assms(1) by (simp add: freshKeys_def distinctDraws_def list_all_iff)
qed

lemma mergedEntries_notCable:
  "filter (\<lambda>v. \<not> isCable cableDb v) (mergedEntries cableDb items)
     = filter (\<lambda>v. \<not> isCable cableDb v) items"
proof -
  have "filter (\<lambda>v. \<not> isCable cableDb v) (map (stripReasons cableDb) xs)
      = filter (\<lambda>v. \<not> isCable cableDb v) xs" for xs
    by (induction xs) (simp_all add: stripReasons_notCable)
  then show ?thesis
    by (simp add: mergedEntries_def entries_notCable)
qed

lemma mergedEntries_cableIds:
  "cableIds cableDb (mergedEntries cableDb items)
     = map idM (filter (isCable cableDb) (foldl (entriesStep cableDb) [] items))"
  by (simp add: cableIds_def mergedEntries_def filter_map comp_def)

lemma mergedEntries_quantities:
  assumes "v \<in> set (mergedEntries cableDb items)" and "isCable cableDb v"
  shows "quantity v = mergedQuantity (candidateQuantities cableDb (idM v) items)"
proof -
  obtain u where u: "u \<in> set (foldl (entriesStep cableDb) [] items)"
    "v = stripReasons cableDb u"
    using assms(1) by (auto simp: mergedEntries_def)
  then have "isCable cableDb u" using assms(2) by simp
  then show ?thesis
    using entries_quantities [of cableDb items] u by simp
qed

subsection \<open>The merge with fresh keys\<close>

text \<open>
  For every list whose cable ids do not begin with \<open>__\<close>, and draws of the random source
  that are pairwise distinct in each run, the merge keeps the lines that are not cables
  unchanged and in order; leaves one line per cable id; gives it the quantity of its only
  candidate, or else the maximum over the candidates where a quantity of 0 counts as 1,
  which is the maximum of the candidates' quantities when none of them is 0 (not their
  sum); and a second merge of the merged list returns the same list.
\<close>

theorem merge_properties:
  assumes "noReservedCableId cableDb items"
    and "distinctDraws cableDb rnd items" and "distinctDraws cableDb rnd' items"
  shows
    "(let out = mergeCableCoilsInBOM rnd items cableDb
      in filter (\<lambda>v. \<not> isCable cableDb v) out = filter (\<lambda>v. \<not> isCable cableDb v) items
         \<and> distinct (cableIds cableDb out)
         \<and> set (cableIds cableDb out) = set (cableIds cableDb items)
         \<and> (\<forall>v\<in>set out. isCable cableDb v \<longrightarrow>
               quantity v = mergedQuantity (candidateQuantities cableDb (idM v) items))
         \<and> (\<forall>v\<in>set out. isCable cableDb v
               \<longrightarrow> 0 \<notin> set (candidateQuantities cableDb (idM v) items)
               \<longrightarrow> quantity v = maxQuantity (candidateQuantities cableDb (idM v) items))
         \<and> mergeCableCoilsInBOM rnd' out cableDb = out)"
proof -
  define out where "out = mergedEntries cableDb items"
  have m: "mergeCableCoilsInBOM rnd items cableDb = out"
    unfolding out_def by (rule merge_refines) (rule fresh_from_distinct [OF assms(2,1)])
  have 1: "filter (\<lambda>v. \<not> isCable cableDb v) out = filter (\<lambda>v. \<not> isCable cableDb v) items"
    unfolding out_def by (rule mergedEntries_notCable)
  have 2: "distinct (cableIds cableDb out)"
    and 3: "set (cableIds cableDb out) = set (cableIds cableDb items)"
    unfolding out_def using entries_ids [of cableDb items]
    by (simp_all add: mergedEntries_cableIds)
  have 4: "\<forall>v\<in>set out. isCable cableDb v \<longrightarrow>
      quantity v = mergedQuantity (candidateQuantities cableDb (idM v) items)"
    unfolding out_def using mergedEntries_quantities by blast
  have 5: "\<forall>v\<in>set out. isCable cableDb v
      \<longrightarrow> 0 \<notin> set (candidateQuantities cableDb (idM v) items)
      \<longrightarrow> quantity v = maxQuantity (candidateQuantities cableDb (idM v) items)"
    using 4 by (simp add: mergedQuantity_is_max)
  have "\<not> startsWith (idM v) ''__''" if "v \<in> set out" "isCable cableDb v" for v
  proof -
    have "idM v \<in> set (cableIds cableDb out)"
      using that by (auto simp: cableIds_def)
    then have "idM v \<in> set (cableIds cableDb items)"
      using 3 by simp
    then obtain w where "w \<in> set items" "isCable cableDb w" "idM w = idM v"
      by (auto simp: cableIds_def)
    then show ?thesis
      using assms(1) by (auto simp: noReservedCableId_def list_all_iff)
  qed
  then have r: "noReservedCableId cableDb out"
    by (auto simp: noReservedCableId_def list_all_iff)
  have "length (filter (\<lambda>v. \<not> isCable cableDb v) out)
      = length (filter (\<lambda>v. \<not> isCable cableDb v) items)"
    using 1 by simp
  then have "distinctDraws cableDb rnd' out"
    using assms(3) by (simp add: distinctDraws_def drawnKeys_def)
  then have "mergeCableCoilsInBOM rnd' out cableDb = mergedEntries cableDb out"
    by (intro merge_refines fresh_from_distinct r)
  then have 6: "mergeCableCoilsInBOM rnd' out cableDb = out"
    unfolding out_def by (simp add: mergedEntries_idempotent [OF assms(1)])
  show ?thesis
    unfolding m Let_def using 1 2 3 4 5 6 by blast
qed

theorem merge_properties_witness:
  "noReservedCableId None exampleBom
   \<and> distinctDraws None drawsA exampleBom \<and> distinctDraws None drawsB exampleBom
   \<and> mergeCableCoilsInBOM drawsA exampleBom None
       = [exampleLine ''CABLE-DC-10MM'' ''AC1 / AC2'' 3, exampleLine ''02018'' ''Disjoncteur'' 2,
          exampleLine ''FOX-S5000'' ''Onduleur'' 1]
   \<and> mergeCableCoilsInBOM drawsB (mergeCableCoilsInBOM drawsA exampleBom None) None
       = mergeCableCoilsInBOM drawsA exampleBom None"
  using merge_properties [of None exampleBom drawsA drawsB]
  by (simp add: merge_example_defs)

text \<open>
  Without a collision of keys the result does not depend on the values drawn: two runs of
  the merge on the same list and catalog, each with fresh keys, return the same list.
\<close>

theorem merge_deterministic:
  assumes "freshKeys cableDb rnd1 items" and "freshKeys cableDb rnd2 items"
  shows "mergeCableCoilsInBOM rnd1 items cableDb = mergeCableCoilsInBOM rnd2 items cableDb"
  using assms by (simp add: merge_refines)

theorem merge_deterministic_witness:
  "freshKeys None drawsA exampleBom \<and> freshKeys None drawsB exampleBom
   \<and> mergeCableCoilsInBOM drawsA exampleBom None = mergeCableCoilsInBOM drawsB exampleBom None"
  using merge_deterministic [of None drawsA exampleBom drawsB]
  by (simp add: merge_example_defs)

subsection \<open>The merge when two draws coincide\<close>

text \<open>
  Claim C8. For every bill of materials the merge combines the cable lines by catalog id
  with the maximum of their quantities, never merges the lines that are not cables (their
  count and quantities are preserved), and is idempotent. The lines that are not cables are
  kept apart only by the keys drawn at random. On the example list, which holds a circuit
  breaker and an inverter besides two lines of one cable, a run that draws 0.5 twice stores
  the inverter over the circuit breaker: the cable lines are merged as claimed, but of the
  two other lines only the inverter is left.
\<close>

theorem merge_collision_drops_line:
  "filter (notCable None) exampleBom
     = [exampleLine ''02018'' ''Disjoncteur'' 2, exampleLine ''FOX-S5000'' ''Onduleur'' 1]
   \<and> mergeCableCoilsInBOM drawsSame exampleBom None
     = [exampleLine ''CABLE-DC-10MM'' ''AC1 / AC2'' 3, exampleLine ''FOX-S5000'' ''Onduleur'' 1]
   \<and> filter (notCable None) (mergeCableCoilsInBOM drawsSame exampleBom None)
     = [exampleLine ''FOX-S5000'' ''Onduleur'' 1]"
  by (simp add: merge_example_defs)

text \<open>
  Claim C9. For a fixed configuration and catalog, two calls of an entry point return the
  same output, although the merge draws the keys of its map from a random source. The
  analyser and the sizing helpers read nothing but their arguments. The merge does not
  keep the promise: the key of a line that is not a cable is \<open>__\<close> followed by the value
  drawn, and nothing makes two draws differ. On the same two lines, a run that draws 0.5
  twice stores the second line over the first and returns one line, while a run that draws
  0.25 and 0.75 returns both.
\<close>

theorem merge_not_deterministic:
  "mergeCableCoilsInBOM drawsSame
      [exampleLine ''02018'' ''Disjoncteur'' 2, exampleLine ''FOX-S5000'' ''Onduleur'' 1] None
     = [exampleLine ''FOX-S5000'' ''Onduleur'' 1]
   \<and> mergeCableCoilsInBOM drawsA
      [exampleLine ''02018'' ''Disjoncteur'' 2, exampleLine ''FOX-S5000'' ''Onduleur'' 1] None
     = [exampleLine ''02018'' ''Disjoncteur'' 2, exampleLine ''FOX-S5000'' ''Onduleur'' 1]"
  by (simp add: merge_example_defs)

end
